theory Spec2Isabelle
  imports Main "HOL-Library.Sublist"
begin

text \<open>
  A model of the response interpreters of the chat client, and what holds of them:
  \<^item> the table extractor \<^verbatim>\<open>parseMarkdownTable\<close> and the chart selector, both in the component
    \<^verbatim>\<open>GraphDisplay\<close> (\<^verbatim>\<open>src/unnamed/part_003\<close>);
  \<^item> the comparison splitter \<^verbatim>\<open>parseComparisonContent\<close> and the text normalisation of
    \<^verbatim>\<open>renderMarkdown\<close> (\<^verbatim>\<open>src/src/components/ChatInterface.jsx\<close>).
  The functions of the program come first, each under its own name, with the predicates
  in which the specification describes them; the properties follow.
\<close>

section \<open>Strings\<close>

text \<open>
  The program works on JavaScript strings. A string is modelled as a \<^typ>\<open>string\<close>, and a
  character of the model stands for the code unit of the same number, so the model covers
  the texts made of the code units U+0000 to U+00FF (ASCII and Latin-1).
\<close>

abbreviation NL :: char where
  "NL \<equiv> CHR 0x0A"

abbreviation CR :: char where
  "CR \<equiv> CHR 0x0D"

text \<open>
  The white space of \<^verbatim>\<open>String.prototype.trim\<close> and of the class \<^verbatim>\<open>\s\<close>: tab, line feed,
  vertical tab, form feed, carriage return, space and no-break space.
\<close>

definition isWhiteSpace :: "char \<Rightarrow> bool" where
  "isWhiteSpace c =
     (c = CHR 0x09 \<or> c = NL \<or> c = CHR 0x0B \<or> c = CHR 0x0C \<or> c = CR \<or> c = CHR '' '' \<or> c = CHR 0xA0)"

text \<open>The line terminators, which \<^verbatim>\<open>.\<close> does not match and at which \<^verbatim>\<open>^\<close> and \<^verbatim>\<open>$\<close> match
  under the flag \<^verbatim>\<open>m\<close>.\<close>

definition isLineTerminator :: "char \<Rightarrow> bool" where
  "isLineTerminator c = (c = NL \<or> c = CR)"

definition isDigit :: "char \<Rightarrow> bool" where
  "isDigit c = (c = CHR ''0'' \<or> c = CHR ''1'' \<or> c = CHR ''2'' \<or> c = CHR ''3'' \<or> c = CHR ''4''
     \<or> c = CHR ''5'' \<or> c = CHR ''6'' \<or> c = CHR ''7'' \<or> c = CHR ''8'' \<or> c = CHR ''9'')"

definition trim :: "string \<Rightarrow> string" where
  "trim s = rev (dropWhile isWhiteSpace (rev (dropWhile isWhiteSpace s)))"

definition startsWith :: "string \<Rightarrow> string \<Rightarrow> bool" where
  "startsWith s p = prefix p s"

definition endsWith :: "string \<Rightarrow> string \<Rightarrow> bool" where
  "endsWith s p = suffix p s"

text \<open>\<^verbatim>\<open>s.includes(p)\<close>: \<open>p\<close> occurs in \<open>s\<close> at some position.\<close>

fun includesStr :: "string \<Rightarrow> string \<Rightarrow> bool" where
  "includesStr [] p = (p = [])"
| "includesStr (c # cs) p = (prefix p (c # cs) \<or> includesStr cs p)"

text \<open>\<^verbatim>\<open>s.split(d)\<close> for a one-character separator: never empty, one more piece than there
  are separators.\<close>

fun split :: "char \<Rightarrow> string \<Rightarrow> string list" where
  "split d [] = [[]]"
| "split d (c # cs) =
     (if c = d then [] # split d cs
      else (case split d cs of [] \<Rightarrow> [[c]] | piece # pieces \<Rightarrow> (c # piece) # pieces))"

text \<open>\<^verbatim>\<open>xs.slice(i, j)\<close> for \<open>0 \<le> i\<close>.\<close>

definition slice :: "'a list \<Rightarrow> int \<Rightarrow> int \<Rightarrow> 'a list" where
  "slice xs i j = take (nat j - nat i) (drop (nat i) xs)"

datatype js_error = TypeError

section \<open>The table extractor: parseMarkdownTable\<close>

text \<open>\<^verbatim>\<open>src/unnamed/part_003\<close>, lines 46 to 115.\<close>

record parsed_table =
  headers :: "string list"
  data :: "string list list"

definition isPipeLine :: "string \<Rightarrow> bool" where
  "isPipeLine line = (startsWith (trim line) ''|'' \<and> endsWith (trim line) ''|'')"

text \<open>
  The detection loop, from line \<open>i\<close> on, with the variables \<^verbatim>\<open>tableStart\<close> and
  \<^verbatim>\<open>tableEnd\<close> (both \<open>-1\<close> at first); a line that is no pipe line ends the loop once the
  table has started.
\<close>

fun scanTable :: "string list \<Rightarrow> int \<Rightarrow> int \<times> int \<Rightarrow> int \<times> int" where
  "scanTable [] i (tableStart, tableEnd) = (tableStart, tableEnd)"
| "scanTable (line # rest) i (tableStart, tableEnd) =
     (if isPipeLine line
      then scanTable rest (i + 1) (if tableStart = -1 then i else tableStart, i)
      else if tableStart \<noteq> -1 then (tableStart, tableEnd)
      else scanTable rest (i + 1) (tableStart, tableEnd))"

definition isDivider :: "string \<Rightarrow> bool" where
  "isDivider line = (includesStr line ''---'' \<or> includesStr line '':--'')"

text \<open>The search for the divider among the lines given, the first of them having index \<open>i\<close>;
  \<open>-1\<close> when there is none.\<close>

fun findDivider :: "string list \<Rightarrow> int \<Rightarrow> int" where
  "findDivider [] i = -1"
| "findDivider (line # rest) i = (if isDivider line then i else findDivider rest (i + 1))"

definition dividerIndex :: "string list \<Rightarrow> int" where
  "dividerIndex tableLines = findDivider (take (min 3 (length tableLines)) tableLines) 0"

text \<open>\<^verbatim>\<open>line.split('|').filter(c => c.trim()).map(c => c.trim())\<close>\<close>

definition splitCells :: "string \<Rightarrow> string list" where
  "splitCells line = map trim (filter (\<lambda>c. trim c \<noteq> []) (split (CHR ''|'') line))"

text \<open>The loop over the lines after the divider: a row is pushed when it has as many cells
  as there are headers.\<close>

fun collectRows :: "string list \<Rightarrow> string list list \<Rightarrow> string list \<Rightarrow> string list list" where
  "collectRows hs rows [] = rows"
| "collectRows hs rows (line # rest) =
     (let row = splitCells line
      in collectRows hs (if length row = length hs then rows @ [row] else rows) rest)"

definition tableLinesOf :: "string \<Rightarrow> string list" where
  "tableLinesOf md =
     (let lines = split NL md; (tableStart, tableEnd) = scanTable lines 0 (-1, -1)
      in slice lines tableStart (tableEnd + 1))"

text \<open>
  The result is \<open>Inr None\<close> for \<^verbatim>\<open>null\<close>, \<open>Inr (Some t)\<close> for a table, and \<open>Inl TypeError\<close>
  when the function throws: with the divider on the first line of the run,
  \<^verbatim>\<open>headerLines\<close> is empty, \<^verbatim>\<open>headerLines[headerLines.length - 1]\<close> is \<^verbatim>\<open>undefined\<close>, and
  calling \<^verbatim>\<open>split\<close> on it is a TypeError.
\<close>

definition parseMarkdownTable :: "string \<Rightarrow> js_error + parsed_table option" where
  "parseMarkdownTable md =
     (if md = [] then Inr None
      else
        let lines = split NL md;
            (tableStart, tableEnd) = scanTable lines 0 (-1, -1)
        in if tableStart = -1 then Inr None
           else
             let tableLines = slice lines tableStart (tableEnd + 1)
             in if length tableLines < 3 then Inr None
                else
                  let d = dividerIndex tableLines
                  in if d = -1 then Inr None
                     else
                       let headerLines = slice tableLines 0 d
                       in (case headerLines of
                             [] \<Rightarrow> Inl TypeError
                           | _ # _ \<Rightarrow>
                               let hs = splitCells (last headerLines)
                               in Inr (Some \<lparr>headers = hs,
                                     data = collectRows hs [] (drop (nat d + 1) tableLines)\<rparr>)))"

text \<open>The run of pipe lines as section 4.1 of the specification describes it: the first
  maximal run of consecutive lines that start and end with a pipe once trimmed.\<close>

definition firstRun :: "string list \<Rightarrow> string list" where
  "firstRun lines = takeWhile isPipeLine (dropWhile (\<lambda>l. \<not> isPipeLine l) lines)"

section \<open>Numbers: parseFloat\<close>

text \<open>
  \<^verbatim>\<open>parseFloat\<close> belongs to the language: it skips leading white space and reads the
  longest prefix that is a \<^verbatim>\<open>StrDecimalLiteral\<close>; without such a prefix the result is
  \<^verbatim>\<open>NaN\<close>. The Number it returns is a function of that literal alone (its mathematical
  value, rounded), so the model keeps the literal: \<open>NumberOf l\<close> is the Number that the
  literal \<open>l\<close> denotes. Binary floating point is not modelled.
\<close>

datatype number = NaN | NumberOf string

definition isNaN :: "number \<Rightarrow> bool" where
  "isNaN x = (x = NaN)"

definition isSign :: "char \<Rightarrow> bool" where
  "isSign c = (c = CHR ''+'' \<or> c = CHR ''-'')"

definition isExponentIndicator :: "char \<Rightarrow> bool" where
  "isExponentIndicator c = (c = CHR ''e'' \<or> c = CHR ''E'')"

text \<open>The longest \<^verbatim>\<open>ExponentPart\<close> at the start of a string (an exponent indicator, an optional
  sign, one digit at least), or nothing.\<close>

definition exponentPart :: "string \<Rightarrow> string" where
  "exponentPart s =
     (case s of
        [] \<Rightarrow> []
      | e # r \<Rightarrow>
          if isExponentIndicator e
          then (case r of
                  [] \<Rightarrow> []
                | c # r' \<Rightarrow>
                    if isSign c
                    then (if takeWhile isDigit r' = [] then [] else e # c # takeWhile isDigit r')
                    else (if takeWhile isDigit r = [] then [] else e # takeWhile isDigit r))
          else [])"

text \<open>The longest prefix that is a \<^verbatim>\<open>StrUnsignedDecimalLiteral\<close>: \<^verbatim>\<open>Infinity\<close>, digits with an
  optional point, fraction and exponent, or a point with digits and an optional exponent.\<close>

definition unsignedLiteral :: "string \<Rightarrow> string option" where
  "unsignedLiteral s =
     (if prefix ''Infinity'' s then Some ''Infinity''
      else if takeWhile isDigit s \<noteq> []
      then (case dropWhile isDigit s of
              [] \<Rightarrow> Some (takeWhile isDigit s)
            | c # r \<Rightarrow>
                if c = CHR ''.''
                then Some (takeWhile isDigit s @ ''.'' @ takeWhile isDigit r
                             @ exponentPart (dropWhile isDigit r))
                else Some (takeWhile isDigit s @ exponentPart (c # r)))
      else (case s of
              [] \<Rightarrow> None
            | c # r \<Rightarrow>
                if c = CHR ''.'' \<and> takeWhile isDigit r \<noteq> []
                then Some (''.'' @ takeWhile isDigit r @ exponentPart (dropWhile isDigit r))
                else None))"

definition parseFloat :: "string \<Rightarrow> number" where
  "parseFloat s =
     (case dropWhile isWhiteSpace s of
        [] \<Rightarrow> NaN
      | c # r \<Rightarrow>
          if isSign c
          then (case unsignedLiteral r of None \<Rightarrow> NaN | Some l \<Rightarrow> NumberOf (c # l))
          else (case unsignedLiteral (c # r) of None \<Rightarrow> NaN | Some l \<Rightarrow> NumberOf l))"

text \<open>The grammar of \<^verbatim>\<open>StrDecimalLiteral\<close>, as the language definition gives it.\<close>

definition isDecimalDigits :: "string \<Rightarrow> bool" where
  "isDecimalDigits ds = (ds \<noteq> [] \<and> (\<forall>c \<in> set ds. isDigit c))"

definition isExponentPart :: "string \<Rightarrow> bool" where
  "isExponentPart x =
     (\<exists>e ds. isExponentIndicator e \<and> isDecimalDigits ds
        \<and> (x = e # ds \<or> x = e # CHR ''+'' # ds \<or> x = e # CHR ''-'' # ds))"

definition isStrUnsignedDecimalLiteral :: "string \<Rightarrow> bool" where
  "isStrUnsignedDecimalLiteral u =
     (u = ''Infinity''
      \<or> (\<exists>ds fs x. u = ds @ ''.'' @ fs @ x \<and> isDecimalDigits ds \<and> (\<forall>c \<in> set fs. isDigit c)
            \<and> (x = [] \<or> isExponentPart x))
      \<or> (\<exists>fs x. u = ''.'' @ fs @ x \<and> isDecimalDigits fs \<and> (x = [] \<or> isExponentPart x))
      \<or> (\<exists>ds x. u = ds @ x \<and> isDecimalDigits ds \<and> (x = [] \<or> isExponentPart x)))"

definition isStrDecimalLiteral :: "string \<Rightarrow> bool" where
  "isStrDecimalLiteral l =
     (isStrUnsignedDecimalLiteral l
      \<or> (\<exists>u. isStrUnsignedDecimalLiteral u \<and> (l = CHR ''+'' # u \<or> l = CHR ''-'' # u)))"

text \<open>The characters that can continue a numeric literal: a digit, the point, an exponent
  indicator.\<close>

definition isNumericChar :: "char \<Rightarrow> bool" where
  "isNumericChar c = (isDigit c \<or> c = CHR ''.'' \<or> isExponentIndicator c)"

section \<open>The chart selector: GraphDisplay\<close>

text \<open>\<^verbatim>\<open>src/unnamed/part_003\<close>, lines 117 to 266 and 328.\<close>

text \<open>\<^verbatim>\<open>/^\d+\s*-\s*\d+$/.test(value)\<close>; the classes of the pattern are disjoint, so each greedy
  repetition takes all it can and nothing is given back.\<close>

definition isRange :: "string \<Rightarrow> bool" where
  "isRange v =
     (takeWhile isDigit v \<noteq> []
      \<and> (case dropWhile isWhiteSpace (dropWhile isDigit v) of
           [] \<Rightarrow> False
         | c # r \<Rightarrow>
             c = CHR ''-''
             \<and> takeWhile isDigit (dropWhile isWhiteSpace r) \<noteq> []
             \<and> dropWhile isDigit (dropWhile isWhiteSpace r) = []))"

text \<open>\<^verbatim>\<open>row[0]\<close>, which is \<^verbatim>\<open>undefined\<close> (here \<open>None\<close>) for an empty row; \<^verbatim>\<open>test\<close> turns
  \<^verbatim>\<open>undefined\<close> into the string \<^verbatim>\<open>undefined\<close>.\<close>

definition labelOf :: "string list \<Rightarrow> string option" where
  "labelOf row = (case row of [] \<Rightarrow> None | c # _ \<Rightarrow> Some c)"

definition isRangeLabel :: "string option \<Rightarrow> bool" where
  "isRangeLabel l = isRange (case l of None \<Rightarrow> ''undefined'' | Some v \<Rightarrow> v)"

text \<open>\<^verbatim>\<open>row[i].replace(/,/g, '')\<close>: a TypeError when the row has no cell \<open>i\<close>.\<close>

definition removeCommas :: "string \<Rightarrow> string" where
  "removeCommas v = filter (\<lambda>c. c \<noteq> CHR '','') v"

definition cellNumber :: "string list \<Rightarrow> nat \<Rightarrow> js_error + number" where
  "cellNumber row i =
     (if i < length row then Inr (parseFloat (removeCommas (row ! i))) else Inl TypeError)"

text \<open>\<^verbatim>\<open>data.every(row => !isNaN(parseFloat(...)))\<close>, which stops at the first row that fails.\<close>

fun everyNumeric :: "string list list \<Rightarrow> nat \<Rightarrow> js_error + bool" where
  "everyNumeric [] i = Inr True"
| "everyNumeric (row # rows) i =
     (case cellNumber row i of
        Inl e \<Rightarrow> Inl e
      | Inr x \<Rightarrow> if isNaN x then Inr False else everyNumeric rows i)"

text \<open>\<^verbatim>\<open>data.map(row => parseFloat(...))\<close>\<close>

fun columnNumbers :: "string list list \<Rightarrow> nat \<Rightarrow> js_error + number list" where
  "columnNumbers [] i = Inr []"
| "columnNumbers (row # rows) i =
     (case cellNumber row i of
        Inl e \<Rightarrow> Inl e
      | Inr x \<Rightarrow> (case columnNumbers rows i of Inl e \<Rightarrow> Inl e | Inr xs \<Rightarrow> Inr (x # xs)))"

record dataset =
  ds_label :: string
  ds_data :: "number list"
  columnIndex :: nat

text \<open>The loop over the columns \<open>1, \<dots>, headers.length - 1\<close>, here over the list of the
  indices left.\<close>

fun numericDatasets :: "parsed_table \<Rightarrow> nat list \<Rightarrow> js_error + dataset list" where
  "numericDatasets t [] = Inr []"
| "numericDatasets t (i # rest) =
     (case everyNumeric (data t) i of
        Inl e \<Rightarrow> Inl e
      | Inr False \<Rightarrow> numericDatasets t rest
      | Inr True \<Rightarrow>
          (case columnNumbers (data t) i of
             Inl e \<Rightarrow> Inl e
           | Inr xs \<Rightarrow>
               (case numericDatasets t rest of
                  Inl e \<Rightarrow> Inl e
                | Inr dss \<Rightarrow>
                    Inr (\<lparr>ds_label = headers t ! i, ds_data = xs, columnIndex = i\<rparr> # dss))))"

datatype chart_kind = Bar | Line | Pie | Doughnut | Scatter

text \<open>The data of a series: numbers, or the points of a scatter plot.\<close>

datatype series_data = Values "number list" | Points "(number option \<times> number option) list"

text \<open>The background colour of a series: one entry of \<^verbatim>\<open>chartColors\<close> (ten colours), given
  by its index, or the whole palette. Border colour and width, tension and point radius
  are rendering attributes and are left out.\<close>

datatype colouring = PaletteEntry nat | WholePalette

record series =
  s_label :: "string option"
  s_data :: series_data
  backgroundColor :: colouring

record chart =
  kind :: chart_kind
  title :: string
  chart_labels :: "string option list option"
  chart_datasets :: "series list"

definition chartColorsLength :: nat where
  "chartColorsLength = 10"

text \<open>\<^verbatim>\<open>datasets.map((ds, i) => ({label: ds.label, data: ds.data, backgroundColor:
  chartColors[i % chartColors.length], ...}))\<close>\<close>

definition seriesOf :: "dataset list \<Rightarrow> series list" where
  "seriesOf dss =
     map (\<lambda>(ds, i). \<lparr>s_label = Some (ds_label ds), s_data = Values (ds_data ds),
                      backgroundColor = PaletteEntry (i mod chartColorsLength)\<rparr>)
       (zip dss [0 ..< length dss])"

text \<open>\<^verbatim>\<open>xs[idx]\<close> on an array of numbers: \<^verbatim>\<open>undefined\<close> out of range, here \<open>None\<close>.\<close>

definition numberAt :: "number list \<Rightarrow> nat \<Rightarrow> number option" where
  "numberAt xs idx = (if idx < length xs then Some (xs ! idx) else None)"

text \<open>\<^verbatim>\<open>tableData.data.map((row, idx) => ({x: datasets[0].data[idx], y: datasets[1].data[idx]}))\<close>;
  both columns have one number for each row.\<close>

definition scatterData :: "string list list \<Rightarrow> dataset \<Rightarrow> dataset \<Rightarrow> (number option \<times> number option) list" where
  "scatterData rows d0 d1 =
     map (\<lambda>idx. (numberAt (ds_data d0) idx, numberAt (ds_data d1) idx)) [0 ..< length rows]"

text \<open>
  The charts for a table with its labels and numeric columns: the branch for range labels
  and the branch for continuous data. The tests \<^verbatim>\<open>datasets.length > 0\<close> before the pie and
  the doughnut are kept as they are written.
\<close>

definition buildCharts :: "string list list \<Rightarrow> string option list \<Rightarrow> bool \<Rightarrow> dataset list \<Rightarrow> chart list" where
  "buildCharts rows labels hasRangeLabels dss =
     (if hasRangeLabels
      then
        [\<lparr>kind = Bar, title = ''Distribution (Histogram)'', chart_labels = Some labels,
          chart_datasets = seriesOf dss\<rparr>]
        @ (if length dss \<ge> 2
           then [\<lparr>kind = Scatter,
                  title = ''Correlation: '' @ ds_label (dss ! 0) @ '' vs '' @ ds_label (dss ! 1),
                  chart_labels = None,
                  chart_datasets =
                    [\<lparr>s_label = Some ''Data Points'',
                      s_data = Points (scatterData rows (dss ! 0) (dss ! 1)),
                      backgroundColor = PaletteEntry 0\<rparr>]\<rparr>]
           else [])
      else
        [\<lparr>kind = Bar, title = ''Comparison (Bar)'', chart_labels = Some labels,
          chart_datasets = seriesOf dss\<rparr>,
         \<lparr>kind = Line, title = ''Trend (Line)'', chart_labels = Some labels,
          chart_datasets = seriesOf dss\<rparr>]
        @ (if length dss > 0
           then [\<lparr>kind = Pie, title = ''Distribution - '' @ ds_label (dss ! 0),
                  chart_labels = Some labels,
                  chart_datasets =
                    [\<lparr>s_label = None, s_data = Values (ds_data (dss ! 0)),
                      backgroundColor = WholePalette\<rparr>]\<rparr>]
           else [])
        @ (if length dss > 0
           then [\<lparr>kind = Doughnut, title = ''Proportion - '' @ ds_label (dss ! 0),
                  chart_labels = Some labels,
                  chart_datasets =
                    [\<lparr>s_label = None, s_data = Values (ds_data (dss ! 0)),
                      backgroundColor = WholePalette\<rparr>]\<rparr>]
           else []))"

text \<open>
  The chart selector proper, for a table: \<open>Inr None\<close> when the component returns \<^verbatim>\<open>null\<close>
  (no data row, or no numeric column), \<open>Inr (Some charts)\<close> with the charts it renders,
  \<^verbatim>\<open>charts.slice(0, 4)\<close>, and \<open>Inl TypeError\<close> when a row lacks a cell that is read.
\<close>

definition selectCharts :: "parsed_table \<Rightarrow> js_error + chart list option" where
  "selectCharts t =
     (if data t = [] then Inr None
      else
        let labels = map labelOf (data t);
            hasRangeLabels = list_ex isRangeLabel labels
        in (case numericDatasets t [1 ..< length (headers t)] of
              Inl e \<Rightarrow> Inl e
            | Inr dss \<Rightarrow>
                if length dss = 0 then Inr None
                else Inr (Some (take 4 (buildCharts (data t) labels hasRangeLabels dss)))))"

definition GraphDisplay :: "string \<Rightarrow> js_error + chart list option" where
  "GraphDisplay content =
     (case parseMarkdownTable content of
        Inl e \<Rightarrow> Inl e
      | Inr None \<Rightarrow> Inr None
      | Inr (Some t) \<Rightarrow> selectCharts t)"

text \<open>What the extractor guarantees of a table and the specification's data model states:
  every row has one cell for each header.\<close>

definition wellFormed :: "parsed_table \<Rightarrow> bool" where
  "wellFormed t = (\<forall>row \<in> set (data t). length row = length (headers t))"

text \<open>
  The column classification of section 3 of the specification: a column is numeric when
  every row's cell in it, its commas removed, parses as a number; the numeric columns are
  looked for from index 1 on.
\<close>

definition isNumericColumn :: "parsed_table \<Rightarrow> nat \<Rightarrow> bool" where
  "isNumericColumn t i = list_all (\<lambda>row. \<not> isNaN (parseFloat (removeCommas (row ! i)))) (data t)"

definition numericColumns :: "parsed_table \<Rightarrow> nat list" where
  "numericColumns t = filter (isNumericColumn t) [1 ..< length (headers t)]"

text \<open>The numbers of column \<open>i\<close>, one for each row.\<close>

definition columnData :: "parsed_table \<Rightarrow> nat \<Rightarrow> number list" where
  "columnData t i = map (\<lambda>row. parseFloat (removeCommas (row ! i))) (data t)"

text \<open>The dataset that the loop over the columns pushes for a numeric column \<open>i\<close>.\<close>

definition datasetOf :: "parsed_table \<Rightarrow> nat \<Rightarrow> dataset" where
  "datasetOf t i = \<lparr>ds_label = headers t ! i, ds_data = columnData t i, columnIndex = i\<rparr>"

text \<open>The label shape of section 3: range when some label matches the range pattern.\<close>

definition hasRangeLabels :: "parsed_table \<Rightarrow> bool" where
  "hasRangeLabels t = list_ex isRangeLabel (map labelOf (data t))"

text \<open>The number of data points of a series.\<close>

definition pointCount :: "series \<Rightarrow> nat" where
  "pointCount s = (case s_data s of Values xs \<Rightarrow> length xs | Points ps \<Rightarrow> length ps)"

section \<open>The comparison splitter: parseComparisonContent\<close>

text \<open>\<^verbatim>\<open>src/src/components/ChatInterface.jsx\<close>, lines 58 to 97.\<close>

text \<open>\<^verbatim>\<open>toLowerCase\<close> on the code units below 256: the letters A to Z and the Latin-1 capitals
  U+00C0 to U+00DE, the multiplication sign U+00D7 apart, move up by 32.\<close>

definition toLowerChar :: "char \<Rightarrow> char" where
  "toLowerChar c =
     (let n = (of_char c :: nat)
      in if (65 \<le> n \<and> n \<le> 90) \<or> (192 \<le> n \<and> n \<le> 222 \<and> n \<noteq> 215) then char_of (n + 32) else c)"

definition toLowerCase :: "string \<Rightarrow> string" where
  "toLowerCase s = map toLowerChar s"

text \<open>
  The pattern \<^verbatim>\<open>/^(?:###|\[|\*\*)\s*(.*?)\s*(?:\]|\*\*|$)/\<close>, piece by piece and in the
  order in which a backtracking matcher tries the alternatives. \<open>closerAt\<close> is the last
  group: a closing bracket, two asterisks, or the end of the input (the pattern has no
  flag, so \<^verbatim>\<open>$\<close> is the end of the string).
\<close>

definition closerAt :: "string \<Rightarrow> bool" where
  "closerAt s = (prefix '']'' s \<or> prefix ''**'' s \<or> s = [])"

text \<open>\<^verbatim>\<open>\s*(?:\]|\*\*|$)\<close>: a greedy run of white space, one character given back at a time.\<close>

fun spacesThenCloser :: "string \<Rightarrow> bool" where
  "spacesThenCloser [] = closerAt []"
| "spacesThenCloser (c # cs) = ((isWhiteSpace c \<and> spacesThenCloser cs) \<or> closerAt (c # cs))"

text \<open>\<^verbatim>\<open>(.*?)\s*(?:\]|\*\*|$)\<close>: the lazy group tries the rest of the pattern first and takes
  one more character, no line terminator, when that fails; the first argument is what the
  group holds so far.\<close>

fun lazyGroup :: "string \<Rightarrow> string \<Rightarrow> string option" where
  "lazyGroup cap [] = (if spacesThenCloser [] then Some cap else None)"
| "lazyGroup cap (c # cs) =
     (if spacesThenCloser (c # cs) then Some cap
      else if isLineTerminator c then None
      else lazyGroup (cap @ [c]) cs)"

text \<open>\<^verbatim>\<open>\s*(.*?)\s*(?:\]|\*\*|$)\<close>: the first greedy run of white space, again giving back one
  character at a time when the rest fails.\<close>

fun spacesThenGroup :: "string \<Rightarrow> string option" where
  "spacesThenGroup [] = lazyGroup [] []"
| "spacesThenGroup (c # cs) =
     (case (if isWhiteSpace c then spacesThenGroup cs else None) of
        Some cap \<Rightarrow> Some cap
      | None \<Rightarrow> lazyGroup [] (c # cs))"

text \<open>The whole pattern on a string: the text of group 1 when it matches.\<close>

definition headerMatch :: "string \<Rightarrow> string option" where
  "headerMatch s =
     (if prefix ''###'' s then spacesThenGroup (drop 3 s)
      else if prefix ''['' s then spacesThenGroup (drop 1 s)
      else if prefix ''**'' s then spacesThenGroup (drop 2 s)
      else None)"

text \<open>\<^verbatim>\<open>xs.indexOf(x)\<close>: the first index at which \<open>x\<close> stands, \<open>None\<close> for \<open>-1\<close>.\<close>

fun indexOfFrom :: "string list \<Rightarrow> string \<Rightarrow> nat \<Rightarrow> nat option" where
  "indexOfFrom [] x i = None"
| "indexOfFrom (y # ys) x i = (if y = x then Some i else indexOfFrom ys x (i + 1))"

definition indexOf :: "string list \<Rightarrow> string \<Rightarrow> nat option" where
  "indexOf xs x = indexOfFrom xs x 0"

text \<open>
  The object \<^verbatim>\<open>sections\<close> is a list of keys with their texts, in the order in which the
  keys were created. The item names are taken not to be names of properties that every
  object inherits (such as \<^verbatim>\<open>constructor\<close>), for which \<^verbatim>\<open>sections[name]\<close> is not
  \<^verbatim>\<open>undefined\<close> on the empty object.
\<close>

type_synonym sections = "(string \<times> string) list"

record split_state =
  currentItem :: "string option"
  generalContent :: string
  sections :: sections

text \<open>\<^verbatim>\<open>if (!sections[k]) sections[k] = ""\<close>: a missing or empty entry becomes the empty
  string, the key keeping its place when it is there.\<close>

definition initSection :: "sections \<Rightarrow> string \<Rightarrow> sections" where
  "initSection secs k =
     (case map_of secs k of
        None \<Rightarrow> secs @ [(k, [])]
      | Some v \<Rightarrow> if v = [] then map (\<lambda>(k', v'). if k' = k then (k', []) else (k', v')) secs else secs)"

text \<open>\<^verbatim>\<open>sections[k] += v\<close>; on a missing key \<^verbatim>\<open>undefined + v\<close> is the string \<^verbatim>\<open>undefined\<close>
  followed by \<open>v\<close>.\<close>

definition appendSection :: "sections \<Rightarrow> string \<Rightarrow> string \<Rightarrow> sections" where
  "appendSection secs k v =
     (case map_of secs k of
        None \<Rightarrow> secs @ [(k, ''undefined'' @ v)]
      | Some _ \<Rightarrow> map (\<lambda>(k', v'). if k' = k then (k', v' @ v) else (k', v')) secs)"

text \<open>The item that a line names as a heading, if any: the index of the first configured
  item whose lower-cased name is the trimmed, lower-cased text of group 1.\<close>

definition headingIndex :: "string list \<Rightarrow> string \<Rightarrow> nat option" where
  "headingIndex items line =
     (case headerMatch (trim line) of
        None \<Rightarrow> None
      | Some g \<Rightarrow> indexOf (map toLowerCase items) (toLowerCase (trim g)))"

text \<open>The body of \<^verbatim>\<open>lines.forEach\<close>. The test \<^verbatim>\<open>if (currentItem)\<close> fails for \<^verbatim>\<open>null\<close> and
  for the empty string.\<close>

definition splitLine :: "string list \<Rightarrow> split_state \<Rightarrow> string \<Rightarrow> split_state" where
  "splitLine items st line =
     (case headingIndex items line of
        Some itemIndex \<Rightarrow>
          st\<lparr>currentItem := Some (items ! itemIndex),
             sections := initSection (sections st) (items ! itemIndex)\<rparr>
      | None \<Rightarrow>
          (case currentItem st of
             None \<Rightarrow> st\<lparr>generalContent := generalContent st @ line @ [NL]\<rparr>
           | Some cur \<Rightarrow>
               if cur \<noteq> []
               then st\<lparr>sections := appendSection (sections st) cur (line @ [NL])\<rparr>
               else st\<lparr>generalContent := generalContent st @ line @ [NL]\<rparr>))"

definition initialState :: split_state where
  "initialState = \<lparr>currentItem = None, generalContent = [], sections = []\<rparr>"

text \<open>
  \<^verbatim>\<open>Object.keys\<close>: the keys that are array indices (canonical decimal numerals below
  \<open>2^32 - 1\<close>) come first, in ascending numeric order, the other keys follow in the order
  of their creation.
\<close>

definition digitValue :: "char \<Rightarrow> nat" where
  "digitValue c = of_char c - 48"

definition decimalValue :: "string \<Rightarrow> nat" where
  "decimalValue s = foldl (\<lambda>n c. 10 * n + digitValue c) 0 s"

definition isArrayIndex :: "string \<Rightarrow> bool" where
  "isArrayIndex k =
     (k \<noteq> [] \<and> (\<forall>c \<in> set k. isDigit c) \<and> (k = ''0'' \<or> hd k \<noteq> CHR ''0'')
      \<and> decimalValue k < 4294967295)"

definition objectKeys :: "sections \<Rightarrow> string list" where
  "objectKeys secs =
     sort_key decimalValue (filter isArrayIndex (map fst secs))
     @ filter (\<lambda>k. \<not> isArrayIndex k) (map fst secs)"

record comparison =
  c_generalContent :: string
  c_sections :: sections
  foundItems :: "string list"

text \<open>\<open>None\<close> is the result \<^verbatim>\<open>null\<close>. The argument \<^verbatim>\<open>items\<close> is a list, so the test \<^verbatim>\<open>!items\<close>
  never holds.\<close>

definition parseComparisonContent :: "string \<Rightarrow> string list \<Rightarrow> comparison option" where
  "parseComparisonContent content items =
     (if length items \<le> 1 then None
      else
        let st = foldl (splitLine items) initialState (split NL content);
            found = objectKeys (sections st)
        in if length found < 2 then None
           else Some \<lparr>c_generalContent = generalContent st, c_sections = sections st,
                      foundItems = found\<rparr>)"










section \<open>Text normalisation: renderMarkdown\<close>

text \<open>\<^verbatim>\<open>src/src/components/ChatInterface.jsx\<close>, lines 235 to 244.\<close>

text \<open>
  The first replacement, \<^verbatim>\<open>/^\[(.*?)\]$/gm\<close> by \<^verbatim>\<open>### $1\<close>. \<open>lazyBracket\<close> is
  \<^verbatim>\<open>(.*?)\]$\<close> after the opening bracket: the group grows by one character, no line
  terminator, until a closing bracket stands at the end of a line (the end of the input or
  a line terminator next).
\<close>

definition atLineEnd :: "string \<Rightarrow> bool" where
  "atLineEnd s = (case s of [] \<Rightarrow> True | c # _ \<Rightarrow> isLineTerminator c)"

fun lazyBracket :: "string \<Rightarrow> string \<Rightarrow> string option" where
  "lazyBracket cap [] = None"
| "lazyBracket cap (c # cs) =
     (if c = CHR '']'' \<and> atLineEnd cs then Some cap
      else if isLineTerminator c then None
      else lazyBracket (cap @ [c]) cs)"

text \<open>The global replacement, from left to right; \<open>bol\<close> says that the position is the start
  of a line, where \<^verbatim>\<open>^\<close> matches. After a match the search goes on behind it.\<close>

fun replaceBrackets :: "bool \<Rightarrow> string \<Rightarrow> string" where
  "replaceBrackets bol [] = []"
| "replaceBrackets bol (c # cs) =
     (if bol \<and> c = CHR ''[''
      then (case lazyBracket [] cs of
              Some cap \<Rightarrow> ''### '' @ cap @ replaceBrackets False (drop (length cap + 2) (c # cs))
            | None \<Rightarrow> c # replaceBrackets (isLineTerminator c) cs)
      else c # replaceBrackets (isLineTerminator c) cs)"

text \<open>
  The second replacement, \<^verbatim>\<open>/### (.*?)\n(?!\n)/g\<close> by \<^verbatim>\<open>### $1\n\n\<close>. \<open>lazyHeading\<close> is
  \<^verbatim>\<open>(.*?)\n(?!\n)\<close> behind the four characters of the marker: the group grows until a
  line feed that no second line feed follows.
\<close>

fun lazyHeading :: "string \<Rightarrow> string \<Rightarrow> string option" where
  "lazyHeading cap [] = None"
| "lazyHeading cap (c # cs) =
     (if c = NL \<and> \<not> prefix [NL] cs then Some cap
      else if isLineTerminator c then None
      else lazyHeading (cap @ [c]) cs)"

fun replaceHeadings :: "string \<Rightarrow> string" where
  "replaceHeadings [] = []"
| "replaceHeadings (c # cs) =
     (if prefix ''### '' (c # cs)
      then (case lazyHeading [] (drop 4 (c # cs)) of
              Some cap \<Rightarrow>
                ''### '' @ cap @ [NL, NL] @ replaceHeadings (drop (length cap + 5) (c # cs))
            | None \<Rightarrow> c # replaceHeadings cs)
      else c # replaceHeadings cs)"

text \<open>The string that \<^verbatim>\<open>renderMarkdown\<close> hands to the markdown renderer.\<close>

definition normalizeMarkdown :: "string \<Rightarrow> string" where
  "normalizeMarkdown content = replaceHeadings (replaceBrackets True content)"

text \<open>
  The two replacements said line by line. For the first one a line is a run of characters
  between line terminators: \<open>segments\<close> cuts a text at its line terminators, \<open>interleave\<close>
  puts the pieces together again with the terminators between them, and \<open>bracketLine\<close>
  rewrites a line that is exactly \<^verbatim>\<open>[X]\<close> to \<^verbatim>\<open>### X\<close>.
\<close>

fun segments :: "string \<Rightarrow> string list" where
  "segments [] = [[]]"
| "segments (c # cs) =
     (if isLineTerminator c then [] # segments cs
      else (case segments cs of [] \<Rightarrow> [[c]] | seg # segs \<Rightarrow> (c # seg) # segs))"

fun interleave :: "string list \<Rightarrow> string \<Rightarrow> string" where
  "interleave [] lts = []"
| "interleave (seg # segs) [] = seg"
| "interleave (seg # segs) (lt # lts) = seg @ lt # interleave segs lts"

definition bracketLine :: "string \<Rightarrow> string" where
  "bracketLine seg =
     (if 2 \<le> length seg \<and> hd seg = CHR ''['' \<and> last seg = CHR '']''
      then ''### '' @ butlast (tl seg) else seg)"

text \<open>
  For the second one a line ends at a line feed. \<open>markedLine\<close>: somewhere in the line the
  marker \<^verbatim>\<open>### \<close> stands, with no carriage return from there to the end of the line.
  \<open>spaceLines\<close> puts an empty line behind every marked line that another line follows,
  unless that next line is empty and is not the last one (then the line feed of the
  marked line has a second line feed behind it already).
\<close>

fun markedLine :: "string \<Rightarrow> bool" where
  "markedLine [] = False"
| "markedLine (c # cs) = ((prefix ''### '' (c # cs) \<and> CR \<notin> set (c # cs)) \<or> markedLine cs)"

fun spaceLines :: "string list \<Rightarrow> string list" where
  "spaceLines [] = []"
| "spaceLines [l] = [l]"
| "spaceLines (l # m # rest) =
     (if markedLine l \<and> \<not> (m = [] \<and> rest \<noteq> []) then l # [] # spaceLines (m # rest)
      else l # spaceLines (m # rest))"

fun joinLines :: "string list \<Rightarrow> string" where
  "joinLines [] = []"
| "joinLines [l] = l"
| "joinLines (l # m # rest) = l @ NL # joinLines (m # rest)"

text \<open>
  The normalisation in the words of section 4.3 of the specification: a line that is
  exactly \<^verbatim>\<open>[X]\<close> becomes \<^verbatim>\<open>### X\<close>; then a heading line, one that begins with \<^verbatim>\<open>### \<close>,
  gets an empty line behind it when the next line is not blank; nothing else changes.
\<close>

fun spaceHeadingsSpec :: "string list \<Rightarrow> string list" where
  "spaceHeadingsSpec [] = []"
| "spaceHeadingsSpec [l] = [l]"
| "spaceHeadingsSpec (l # m # rest) =
     (if prefix ''### '' l \<and> trim m \<noteq> [] then l # [] # spaceHeadingsSpec (m # rest)
      else l # spaceHeadingsSpec (m # rest))"

definition normalizeSpec :: "string \<Rightarrow> string" where
  "normalizeSpec content = joinLines (spaceHeadingsSpec (map bracketLine (split NL content)))"

section \<open>Properties of the table extractor\<close>

text \<open>The detection loop finds the first run of pipe lines.\<close>

lemma firstRun_none: "\<forall>l \<in> set ls. \<not> isPipeLine l \<Longrightarrow> firstRun ls = []"
  unfolding firstRun_def by (induction ls) auto

lemma scanTable_started:
  "s \<noteq> -1 \<Longrightarrow> scanTable ls i (s, e) =
     (s, if takeWhile isPipeLine ls = [] then e else i + int (length (takeWhile isPipeLine ls)) - 1)"
  by (induction ls arbitrary: i e) auto

lemma scanTable_fresh:
  "0 \<le> i \<Longrightarrow> scanTable ls i (-1, e) =
     (if \<exists>l \<in> set ls. isPipeLine l
      then (i + int (length (takeWhile (\<lambda>l. \<not> isPipeLine l) ls)),
            i + int (length (takeWhile (\<lambda>l. \<not> isPipeLine l) ls))
              + int (length (takeWhile isPipeLine (dropWhile (\<lambda>l. \<not> isPipeLine l) ls))) - 1)
      else (-1, e))"
proof (induction ls arbitrary: i e)
  case Nil
  then show ?case by simp
next
  case (Cons l ls)
  show ?case
  proof (cases "isPipeLine l")
    case True
    with Cons.prems have "i \<noteq> -1" by simp
    with True show ?thesis by (simp add: scanTable_started)
  next
    case False
    with Cons.prems Cons.IH [of "i + 1" e] show ?thesis by auto
  qed
qed

lemma slice_nat: "slice ls (int a) (int a + int b) = take b (drop a ls)"
  by (simp add: slice_def nat_add_distrib)

lemma slice_firstRun:
  "slice ls (int (length (takeWhile (\<lambda>l. \<not> P l) ls)))
     (int (length (takeWhile (\<lambda>l. \<not> P l) ls)) + int (length (takeWhile P (dropWhile (\<lambda>l. \<not> P l) ls))))
   = takeWhile P (dropWhile (\<lambda>l. \<not> P l) ls)"
  unfolding slice_nat
  by (simp only: dropWhile_eq_drop [symmetric] takeWhile_eq_take [symmetric])

lemma tableLinesOf_firstRun: "tableLinesOf md = firstRun (split NL md)"
proof (cases "\<exists>l \<in> set (split NL md). isPipeLine l")
  case True
  then show ?thesis
    unfolding tableLinesOf_def firstRun_def Let_def
    by (simp add: scanTable_fresh slice_firstRun)
next
  case False
  then have "firstRun (split NL md) = []"
    by (simp add: firstRun_none)
  moreover from False have "tableLinesOf md = []"
    by (simp add: tableLinesOf_def scanTable_fresh slice_def Let_def)
  ultimately show ?thesis by simp
qed

lemma collectRows_filter:
  "collectRows hs rows ls = rows @ filter (\<lambda>row. length row = length hs) (map splitCells ls)"
  by (induction ls arbitrary: rows) (simp_all add: Let_def)

lemma findDivider_none: "\<forall>l \<in> set ls. \<not> isDivider l \<Longrightarrow> findDivider ls i = -1"
  by (induction ls arbitrary: i) auto

lemma findDivider_range:
  "findDivider ls i = -1 \<or> (i \<le> findDivider ls i \<and> findDivider ls i < i + int (length ls))"
proof (induction ls arbitrary: i)
  case Nil
  show ?case by simp
next
  case (Cons l ls)
  from Cons [of "i + 1"] show ?case by auto
qed

lemma dividerIndex_range:
  "dividerIndex ls = -1 \<or> (0 \<le> dividerIndex ls \<and> dividerIndex ls < 3 \<and> dividerIndex ls < int (length ls))"
  using findDivider_range [of "take (min 3 (length ls)) ls" 0]
  by (auto simp: dividerIndex_def)

lemma tableStart_none:
  assumes "fst (scanTable (split NL md) 0 (-1, -1)) = -1"
  shows "tableLinesOf md = []"
proof -
  have "\<not> (\<exists>l \<in> set (split NL md). isPipeLine l)"
  proof
    assume "\<exists>l \<in> set (split NL md). isPipeLine l"
    then have "0 \<le> fst (scanTable (split NL md) 0 (-1, -1))"
      by (simp add: scanTable_fresh)
    with assms show False by simp
  qed
  then show ?thesis
    by (simp add: tableLinesOf_firstRun firstRun_none)
qed

lemma last_take: "0 < n \<Longrightarrow> n \<le> length xs \<Longrightarrow> last (take n xs) = xs ! (n - 1)"
proof -
  assume n: "0 < n" "n \<le> length xs"
  then have "take n xs \<noteq> []" by auto
  then have "last (take n xs) = take n xs ! (length (take n xs) - 1)"
    by (rule last_conv_nth)
  with n show ?thesis by (simp add: min_def)
qed

lemma parseMarkdownTable_unfold:
  "parseMarkdownTable md =
     (if md = [] \<or> length (tableLinesOf md) < 3 \<or> dividerIndex (tableLinesOf md) = -1 then Inr None
      else if dividerIndex (tableLinesOf md) = 0 then Inl TypeError
      else let hs = splitCells (tableLinesOf md ! (nat (dividerIndex (tableLinesOf md)) - 1))
           in Inr (Some \<lparr>headers = hs,
                 data = collectRows hs [] (drop (nat (dividerIndex (tableLinesOf md)) + 1) (tableLinesOf md))\<rparr>))"
proof -
  let ?tl = "tableLinesOf md"
  let ?d = "dividerIndex ?tl"
  have tl: "slice (split NL md) (fst (scanTable (split NL md) 0 (-1, -1)))
              (snd (scanTable (split NL md) 0 (-1, -1)) + 1) = ?tl"
    by (simp add: tableLinesOf_def case_prod_beta Let_def)
  have unfold: "parseMarkdownTable md =
     (if md = [] then Inr None
      else if fst (scanTable (split NL md) 0 (-1, -1)) = -1 then Inr None
      else if length ?tl < 3 then Inr None
      else if ?d = -1 then Inr None
      else (case slice ?tl 0 ?d of [] \<Rightarrow> Inl TypeError
            | _ # _ \<Rightarrow> let hs = splitCells (last (slice ?tl 0 ?d))
                in Inr (Some \<lparr>headers = hs, data = collectRows hs [] (drop (nat ?d + 1) ?tl)\<rparr>)))"
    by (simp add: parseMarkdownTable_def Let_def case_prod_beta tl)
  show ?thesis
  proof (cases "md = [] \<or> length ?tl < 3 \<or> ?d = -1")
    case True
    then show ?thesis
      using tableStart_none [of md] by (auto simp: unfold)
  next
    case False
    then have len: "3 \<le> length ?tl" and d: "0 \<le> ?d" "?d < int (length ?tl)"
      using dividerIndex_range [of ?tl] by auto
    have sl: "slice ?tl 0 ?d = take (nat ?d) ?tl"
      by (simp add: slice_def)
    show ?thesis
    proof (cases "?d = 0")
      case True
      then have "slice ?tl 0 ?d = []" by (simp add: slice_def)
      with False True show ?thesis
        using tableStart_none [of md] by (auto simp: unfold)
    next
      case nz: False
      with d have pos: "0 < nat ?d" "nat ?d \<le> length ?tl" by auto
      then have ne: "take (nat ?d) ?tl \<noteq> []" using len by auto
      have "last (take (nat ?d) ?tl) = ?tl ! (nat ?d - 1)"
        using pos by (rule last_take)
      with False nz ne show ?thesis
        using tableStart_none [of md]
        by (auto simp: unfold sl Let_def split: list.splits)
    qed
  qed
qed


text \<open>
  Claim C5. A text in which no line, once trimmed, starts and ends with a pipe has no
  table: the extractor returns \<^verbatim>\<open>null\<close>. So does a text whose first run of such lines
  has two lines or fewer, and a text in which none of the first three lines of that run
  contains \<^verbatim>\<open>---\<close> or \<^verbatim>\<open>:--\<close>.
\<close>

theorem parseMarkdownTable_no_table:
  assumes "(\<forall>line \<in> set (split NL md). \<not> isPipeLine line)
    \<or> length (firstRun (split NL md)) \<le> 2
    \<or> (\<forall>line \<in> set (take 3 (firstRun (split NL md))). \<not> isDivider line)"
  shows "parseMarkdownTable md = Inr None"
proof -
  have take3: "take (min 3 (length ls)) ls = take 3 ls" for ls :: "string list"
    by (simp add: min_def)
  have "length (tableLinesOf md) < 3 \<or> dividerIndex (tableLinesOf md) = -1"
    using assms firstRun_none [of "split NL md"]
    by (auto simp: tableLinesOf_firstRun dividerIndex_def findDivider_none take3)
  then show ?thesis
    by (auto simp: parseMarkdownTable_unfold)
qed

text \<open>A run of two pipe lines after a line of prose: no table.\<close>

theorem parseMarkdownTable_no_table_witness:
  "length (firstRun (split NL (''Prices'' @ [NL] @ ''| a | b |'' @ [NL] @ ''| --- | --- |''))) = 2
   \<and> parseMarkdownTable (''Prices'' @ [NL] @ ''| a | b |'' @ [NL] @ ''| --- | --- |'') = Inr None"
proof -
  have h: "length (firstRun (split NL (''Prices'' @ [NL] @ ''| a | b |'' @ [NL] @ ''| --- | --- |''))) = 2"
    by code_simp
  then have "length (firstRun (split NL (''Prices'' @ [NL] @ ''| a | b |'' @ [NL] @ ''| --- | --- |''))) \<le> 2"
    by simp
  then show ?thesis
    using h parseMarkdownTable_no_table [of "''Prices'' @ [NL] @ ''| a | b |'' @ [NL] @ ''| --- | --- |''"]
    by blast
qed

text \<open>
  Claim C1. The claim is that the interpreters never throw, also when the divider is the
  first line of the run of pipe lines. On the three lines \<^verbatim>\<open>| --- |\<close>, \<^verbatim>\<open>| a |\<close>, \<^verbatim>\<open>| b |\<close>
  the extractor finds the divider at index 0, so there is no header line, and reading the
  last header line and splitting it throws a TypeError.
\<close>

theorem parseMarkdownTable_divider_first_throws:
  "parseMarkdownTable (''| --- |'' @ [NL] @ ''| a |'' @ [NL] @ ''| b |'') = Inl TypeError"
  by code_simp

text \<open>
  Claim C6. In a table that the extractor returns, every row has as many fields as there
  are headers: the rows are the lines after the divider, split into fields, and those
  whose number of fields differs from the number of headers are left out, the others
  kept in order.
\<close>

theorem parseMarkdownTable_rows_match_headers:
  assumes "parseMarkdownTable md = Inr (Some t)"
  shows "list_all (\<lambda>row. length row = length (headers t)) (data t)
    \<and> data t = filter (\<lambda>row. length row = length (headers t))
         (map splitCells (drop (nat (dividerIndex (tableLinesOf md)) + 1) (tableLinesOf md)))"
proof -
  let ?tl = "tableLinesOf md"
  let ?hs = "splitCells (?tl ! (nat (dividerIndex ?tl) - 1))"
  from assms have "t = \<lparr>headers = ?hs, data = collectRows ?hs [] (drop (nat (dividerIndex ?tl) + 1) ?tl)\<rparr>"
    by (simp add: parseMarkdownTable_unfold Let_def split: if_splits)
  then have "headers t = ?hs"
    and "data t = filter (\<lambda>row. length row = length ?hs) (map splitCells (drop (nat (dividerIndex ?tl) + 1) ?tl))"
    by (simp_all add: collectRows_filter)
  then show ?thesis
    by (simp add: list_all_iff)
qed

text \<open>The example of the specification: the row with three fields is dropped from the
  table of two columns.\<close>

theorem parseMarkdownTable_rows_match_headers_witness:
  "parseMarkdownTable (''| City | Price |'' @ [NL] @ ''| --- | --- |'' @ [NL]
      @ ''| Pune | 5000 | extra |'' @ [NL] @ ''| Mumbai | 9000 |'')
     = Inr (Some \<lparr>headers = [''City'', ''Price''], data = [[''Mumbai'', ''9000'']]\<rparr>)
   \<and> list_all (\<lambda>row. length row = length [''City'', ''Price'']) [[''Mumbai'', ''9000'']]"
proof -
  have h: "parseMarkdownTable (''| City | Price |'' @ [NL] @ ''| --- | --- |'' @ [NL]
      @ ''| Pune | 5000 | extra |'' @ [NL] @ ''| Mumbai | 9000 |'')
     = Inr (Some \<lparr>headers = [''City'', ''Price''], data = [[''Mumbai'', ''9000'']]\<rparr>)"
    by code_simp
  from parseMarkdownTable_rows_match_headers [OF h]
  have "list_all (\<lambda>row. length row = length (headers \<lparr>headers = [''City'', ''Price''], data = [[''Mumbai'', ''9000'']]\<rparr>))
     (data \<lparr>headers = [''City'', ''Price''], data = [[''Mumbai'', ''9000'']]\<rparr>)"
    by (rule conjunct1)
  then have l: "list_all (\<lambda>row. length row = length [''City'', ''Price'']) [[''Mumbai'', ''9000'']]"
    by simp
  from h l show ?thesis
    by (rule conjI)
qed

section \<open>Properties of the chart selector\<close>

text \<open>\<^verbatim>\<open>parseFloat\<close> reads a literal that stands at the start of a string when the character
  behind it cannot continue a number.\<close>

lemma takeWhile_digits:
  assumes "\<forall>c \<in> set ds. isDigit c" and "r = [] \<or> \<not> isDigit (hd r)"
  shows "takeWhile isDigit (ds @ r) = ds" and "dropWhile isDigit (ds @ r) = r"
proof -
  have "takeWhile isDigit r = []" "dropWhile isDigit r = r"
    using assms(2) by (cases r; simp)+
  with assms(1) show "takeWhile isDigit (ds @ r) = ds" "dropWhile isDigit (ds @ r) = r"
    by (simp_all add: takeWhile_append2 dropWhile_append2)
qed

lemma exponentPart_none: "r = [] \<or> \<not> isExponentIndicator (hd r) \<Longrightarrow> exponentPart r = []"
  by (cases r) (auto simp: exponentPart_def)

lemma digit_not_sign: "isDigit c \<Longrightarrow> \<not> isSign c"
  by (auto simp: isDigit_def isSign_def)

lemma exponentPart_exact:
  assumes "isExponentPart x" and "r = [] \<or> \<not> isDigit (hd r)"
  shows "exponentPart (x @ r) = x"
proof -
  from assms(1) obtain e ds where e: "isExponentIndicator e" and ds: "isDecimalDigits ds"
    and x: "x = e # ds \<or> x = e # CHR ''+'' # ds \<or> x = e # CHR ''-'' # ds"
    by (auto simp: isExponentPart_def)
  from ds have all: "\<forall>c \<in> set ds. isDigit c" and ne: "ds \<noteq> []"
    by (simp_all add: isDecimalDigits_def)
  note tw = takeWhile_digits(1) [OF all assms(2)]
  from ne obtain d ds' where dd: "ds = d # ds'" by (cases ds) auto
  with all have d: "isDigit d" by simp
  from x show ?thesis
  proof (elim disjE)
    assume "x = e # ds"
    with e tw ne d dd show ?thesis
      by (simp add: exponentPart_def digit_not_sign del: takeWhile.simps)
  next
    assume "x = e # CHR ''+'' # ds"
    with e tw ne show ?thesis
      by (simp add: exponentPart_def isSign_def)
  next
    assume "x = e # CHR ''-'' # ds"
    with e tw ne show ?thesis
      by (simp add: exponentPart_def isSign_def)
  qed
qed


lemma digit_chars:
  "isDigit c \<Longrightarrow> c \<noteq> CHR ''.'' \<and> c \<noteq> CHR ''I'' \<and> \<not> isSign c \<and> \<not> isWhiteSpace c \<and> \<not> isExponentIndicator c"
  by (auto simp: isDigit_def isSign_def isWhiteSpace_def isExponentIndicator_def)

lemma exponent_chars:
  "isExponentIndicator c \<Longrightarrow> c \<noteq> CHR ''.'' \<and> \<not> isDigit c"
  by (auto simp: isDigit_def isExponentIndicator_def)

lemma not_numeric_hd:
  assumes "rest = [] \<or> \<not> isNumericChar (hd rest)"
  shows "rest = [] \<or> \<not> isDigit (hd rest)"
    and "rest = [] \<or> \<not> isExponentIndicator (hd rest)"
    and "rest = [] \<or> hd rest \<noteq> CHR ''.''"
  using assms by (auto simp: isNumericChar_def)

text \<open>What follows the digits of a literal: an exponent part or nothing, then the rest.\<close>

lemma exponent_then_rest:
  assumes x: "x = [] \<or> isExponentPart x" and rest: "rest = [] \<or> \<not> isNumericChar (hd rest)"
  shows "exponentPart (x @ rest) = x"
    and "x @ rest = [] \<or> \<not> isDigit (hd (x @ rest))"
    and "x @ rest = [] \<or> hd (x @ rest) \<noteq> CHR ''.''"
proof -
  show "exponentPart (x @ rest) = x"
    using x exponentPart_none [OF not_numeric_hd(2) [OF rest]]
      exponentPart_exact [OF _ not_numeric_hd(1) [OF rest]]
    by auto
  show "x @ rest = [] \<or> \<not> isDigit (hd (x @ rest))"
    using x not_numeric_hd(1) [OF rest]
    by (auto simp: isExponentPart_def exponent_chars)
  show "x @ rest = [] \<or> hd (x @ rest) \<noteq> CHR ''.''"
    using x not_numeric_hd(3) [OF rest]
    by (auto simp: isExponentPart_def exponent_chars)
qed

lemma unsignedLiteral_prefix:
  assumes u: "isStrUnsignedDecimalLiteral u" and rest: "rest = [] \<or> \<not> isNumericChar (hd rest)"
  shows "unsignedLiteral (u @ rest) = Some u"
proof -
  consider (inf) "u = ''Infinity''"
    | (frac) ds fs x where "u = ds @ ''.'' @ fs @ x" "isDecimalDigits ds" "\<forall>c \<in> set fs. isDigit c"
        "x = [] \<or> isExponentPart x"
    | (point) fs x where "u = ''.'' @ fs @ x" "isDecimalDigits fs" "x = [] \<or> isExponentPart x"
    | (int) ds x where "u = ds @ x" "isDecimalDigits ds" "x = [] \<or> isExponentPart x"
    using u unfolding isStrUnsignedDecimalLiteral_def by blast
  then show ?thesis
  proof cases
    case inf
    then show ?thesis by (simp add: unsignedLiteral_def)
  next
    case frac
    from frac(2) obtain d ds' where ds: "ds = d # ds'" "isDigit d" "\<forall>c \<in> set ds. isDigit c"
      by (cases ds) (auto simp: isDecimalDigits_def)
    have noinf: "\<not> prefix ''Infinity'' (u @ rest)"
      using frac(1) ds digit_chars [of d] by auto
    have t1: "takeWhile isDigit (u @ rest) = ds" "dropWhile isDigit (u @ rest) = CHR ''.'' # fs @ x @ rest"
      using takeWhile_digits [OF ds(3), of "CHR ''.'' # fs @ x @ rest"] frac(1)
      by (simp_all add: isDigit_def)
    note e = exponent_then_rest [OF frac(4) rest]
    have t2: "takeWhile isDigit (fs @ x @ rest) = fs" "dropWhile isDigit (fs @ x @ rest) = x @ rest"
      using takeWhile_digits [OF frac(3) e(2)] by simp_all
    from ds(1) have ne: "ds \<noteq> []" by simp
    have "unsignedLiteral (u @ rest) = Some (ds @ ''.'' @ fs @ x)"
      by (simp add: unsignedLiteral_def noinf t1 t2 e(1) ne)
    with frac(1) show ?thesis by simp
  next
    case point
    from point(2) have fs: "fs \<noteq> []" "\<forall>c \<in> set fs. isDigit c"
      by (simp_all add: isDecimalDigits_def)
    note e = exponent_then_rest [OF point(3) rest]
    have t2: "takeWhile isDigit (fs @ x @ rest) = fs" "dropWhile isDigit (fs @ x @ rest) = x @ rest"
      using takeWhile_digits [OF fs(2) e(2)] by simp_all
    have "unsignedLiteral (CHR ''.'' # fs @ x @ rest) = Some (''.'' @ fs @ x)"
      by (simp add: unsignedLiteral_def t2 e(1) fs(1)) (simp add: isDigit_def)
    with point(1) show ?thesis by simp
  next
    case int
    from int(2) obtain d ds' where ds: "ds = d # ds'" "isDigit d" "\<forall>c \<in> set ds. isDigit c"
      by (cases ds) (auto simp: isDecimalDigits_def)
    define s where "s = u @ rest"
    have noinf: "\<not> prefix ''Infinity'' s"
      using int(1) ds digit_chars [of d] by (auto simp: s_def)
    note e = exponent_then_rest [OF int(3) rest]
    have t1: "takeWhile isDigit s = ds" "dropWhile isDigit s = x @ rest"
      using takeWhile_digits [OF ds(3) e(2)] int(1) by (simp_all add: s_def)
    from ds(1) have ne: "ds \<noteq> []" by simp
    have "unsignedLiteral s = Some (ds @ x)"
    proof (cases "x @ rest")
      case Nil
      then show ?thesis
        by (simp add: unsignedLiteral_def noinf t1 ne)
    next
      case (Cons c r)
      with e(3) have "c \<noteq> CHR ''.''" by simp
      with Cons e(1) show ?thesis
        by (simp add: unsignedLiteral_def noinf t1 ne)
    qed
    with int(1) show ?thesis by (simp add: s_def)
  qed
qed

lemma unsigned_first:
  assumes "isStrUnsignedDecimalLiteral u"
  shows "\<exists>c r. u = c # r \<and> \<not> isSign c \<and> \<not> isWhiteSpace c"
proof -
  have d: "\<exists>c r. ds @ s = c # r \<and> \<not> isSign c \<and> \<not> isWhiteSpace c" if "isDecimalDigits ds" for ds s
  proof -
    from that obtain c ds' where "ds = c # ds'" "isDigit c"
      by (cases ds) (auto simp: isDecimalDigits_def)
    then show ?thesis using digit_chars [of c] by auto
  qed
  from assms consider "u = ''Infinity''"
    | ds s where "u = ds @ s" "isDecimalDigits ds"
    | s where "u = CHR ''.'' # s"
    unfolding isStrUnsignedDecimalLiteral_def by auto
  then show ?thesis
  proof cases
    case 1
    then show ?thesis by (simp add: isSign_def isWhiteSpace_def)
  next
    case 2
    with d show ?thesis by blast
  next
    case 3
    then show ?thesis by (simp add: isSign_def isWhiteSpace_def)
  qed
qed

lemma parseFloat_prefix:
  assumes l: "isStrDecimalLiteral l" and rest: "rest = [] \<or> \<not> isNumericChar (hd rest)"
  shows "parseFloat (l @ rest) = NumberOf l"
proof -
  from l consider (unsigned) "isStrUnsignedDecimalLiteral l"
    | (signed) sg u where "l = sg # u" "isSign sg" "isStrUnsignedDecimalLiteral u"
    unfolding isStrDecimalLiteral_def by (auto simp: isSign_def)
  then show ?thesis
  proof cases
    case unsigned
    from unsigned_first [OF unsigned] obtain c r where c: "l = c # r" "\<not> isSign c" "\<not> isWhiteSpace c"
      by blast
    from unsignedLiteral_prefix [OF unsigned rest] c show ?thesis
      by (simp add: parseFloat_def)
  next
    case signed
    from signed(2) have "\<not> isWhiteSpace sg" by (auto simp: isSign_def isWhiteSpace_def)
    with unsignedLiteral_prefix [OF signed(3) rest] signed(1,2) show ?thesis
      by (simp add: parseFloat_def)
  qed
qed

lemma digits_literal: "isDecimalDigits ds \<Longrightarrow> isStrDecimalLiteral ds"
proof -
  assume "isDecimalDigits ds"
  then have "ds = ds @ [] \<and> isDecimalDigits ds \<and> ([] = [] \<or> isExponentPart [])" by simp
  then have "isStrUnsignedDecimalLiteral ds"
    unfolding isStrUnsignedDecimalLiteral_def by blast
  then show ?thesis by (simp add: isStrDecimalLiteral_def)
qed


text \<open>On a table whose rows have a cell for each header no cell read is missing: the
  loop over the columns returns the datasets of the numeric columns.\<close>

lemma everyNumeric_total:
  "\<forall>row \<in> set rows. i < length row \<Longrightarrow>
     everyNumeric rows i = Inr (list_all (\<lambda>row. \<not> isNaN (parseFloat (removeCommas (row ! i)))) rows)"
  by (induction rows) (simp_all add: cellNumber_def)

lemma columnNumbers_total:
  "\<forall>row \<in> set rows. i < length row \<Longrightarrow>
     columnNumbers rows i = Inr (map (\<lambda>row. parseFloat (removeCommas (row ! i))) rows)"
  by (induction rows) (simp_all add: cellNumber_def)

lemma numericDatasets_total:
  assumes "\<forall>row \<in> set (data t). \<forall>i \<in> set cols. i < length row"
  shows "numericDatasets t cols = Inr (map (datasetOf t) (filter (isNumericColumn t) cols))"
  using assms
proof (induction cols)
  case Nil
  show ?case by simp
next
  case (Cons i cols)
  then have i: "\<forall>row \<in> set (data t). i < length row"
    and rest: "numericDatasets t cols = Inr (map (datasetOf t) (filter (isNumericColumn t) cols))"
    by simp_all
  have ds: "\<lparr>ds_label = headers t ! i, ds_data = map (\<lambda>row. parseFloat (removeCommas (row ! i))) (data t),
      columnIndex = i\<rparr> = datasetOf t i"
    by (simp add: datasetOf_def columnData_def)
  have num: "list_all (\<lambda>row. \<not> isNaN (parseFloat (removeCommas (row ! i)))) (data t) = isNumericColumn t i"
    by (simp add: isNumericColumn_def)
  show ?case
    by (simp add: everyNumeric_total [OF i] columnNumbers_total [OF i] rest ds num)
qed

lemma numericDatasets_wellFormed:
  assumes "wellFormed t"
  shows "numericDatasets t [1 ..< length (headers t)] = Inr (map (datasetOf t) (numericColumns t))"
  unfolding numericColumns_def
  using assms by (intro numericDatasets_total) (simp add: wellFormed_def)

lemma numericDatasets_wellFormed_Suc:
  assumes "wellFormed t"
  shows "numericDatasets t [Suc 0 ..< length (headers t)] = Inr (map (datasetOf t) (numericColumns t))"
  using numericDatasets_wellFormed [OF assms] by simp

lemma scatterData_zip:
  assumes "length (ds_data d0) = length rows" and "length (ds_data d1) = length rows"
  shows "scatterData rows d0 d1 = zip (map Some (ds_data d0)) (map Some (ds_data d1))"
proof (rule nth_equalityI)
  show "length (scatterData rows d0 d1) = length (zip (map Some (ds_data d0)) (map Some (ds_data d1)))"
    using assms by (simp add: scatterData_def)
next
  fix idx assume "idx < length (scatterData rows d0 d1)"
  then have "idx < length rows" by (simp add: scatterData_def)
  with assms show "scatterData rows d0 d1 ! idx = zip (map Some (ds_data d0)) (map Some (ds_data d1)) ! idx"
    by (simp add: scatterData_def numberAt_def)
qed

lemma seriesOf_data: "map s_data (seriesOf dss) = map (\<lambda>ds. Values (ds_data ds)) dss"
proof (rule nth_equalityI)
  show "length (map s_data (seriesOf dss)) = length (map (\<lambda>ds. Values (ds_data ds)) dss)"
    by (simp add: seriesOf_def)
next
  fix i assume "i < length (map s_data (seriesOf dss))"
  then have "i < length dss" by (simp add: seriesOf_def)
  then show "map s_data (seriesOf dss) ! i = map (\<lambda>ds. Values (ds_data ds)) dss ! i"
    by (simp add: seriesOf_def)
qed

lemma seriesOf_pointCount:
  "list_all (\<lambda>ds. length (ds_data ds) = n) dss \<Longrightarrow> list_all (\<lambda>s. pointCount s = n) (seriesOf dss)"
  by (auto simp: seriesOf_def list_all_iff pointCount_def set_zip)

lemma length_columnData: "length (columnData t i) = length (data t)"
  by (simp add: columnData_def)


text \<open>
  Claim C7. Take a table whose rows have one cell for each header and that has a data
  row (a table without one is no table: the component returns \<^verbatim>\<open>null\<close> before it selects
  charts). Without a numeric column there are no charts. With one, and with no label of
  the range shape, the charts are Bar, Line, Pie and Doughnut in this order; with a range
  label they are Bar, followed by Scatter exactly when there are two numeric columns at
  least. Every series has one data point for each data row; the bar chart has one series
  for each numeric column, holding the numbers of that column; the scatter series pairs
  the number of the first numeric column with that of the second, row by row.
\<close>

theorem selectCharts_by_label_shape:
  assumes wf: "wellFormed t" and rows: "data t \<noteq> []"
  shows "(numericColumns t = [] \<longrightarrow> selectCharts t = Inr None)
    \<and> (numericColumns t \<noteq> [] \<longrightarrow>
        (\<exists>charts. selectCharts t = Inr (Some charts)
           \<and> map kind charts =
               (if hasRangeLabels t then (if 2 \<le> length (numericColumns t) then [Bar, Scatter] else [Bar])
                else [Bar, Line, Pie, Doughnut])
           \<and> list_all (\<lambda>c. list_all (\<lambda>s. pointCount s = length (data t)) (chart_datasets c)) charts
           \<and> map s_data (chart_datasets (charts ! 0)) = map (\<lambda>i. Values (columnData t i)) (numericColumns t)
           \<and> (hasRangeLabels t \<and> 2 \<le> length (numericColumns t) \<longrightarrow>
                map s_data (chart_datasets (charts ! 1)) =
                  [Points (zip (map Some (columnData t (numericColumns t ! 0)))
                               (map Some (columnData t (numericColumns t ! 1))))])))"
proof (intro conjI impI)
  assume "numericColumns t = []"
  with rows show "selectCharts t = Inr None"
    by (simp add: selectCharts_def numericDatasets_wellFormed_Suc [OF wf])
next
  assume ne: "numericColumns t \<noteq> []"
  let ?dss = "map (datasetOf t) (numericColumns t)"
  let ?charts = "buildCharts (data t) (map labelOf (data t)) (hasRangeLabels t) ?dss"
  have len: "list_all (\<lambda>ds. length (ds_data ds) = length (data t)) ?dss"
    by (simp add: list_all_iff datasetOf_def length_columnData)
  note pc = seriesOf_pointCount [OF len]
  have sd: "map s_data (seriesOf ?dss) = map (\<lambda>i. Values (columnData t i)) (numericColumns t)"
    by (simp add: seriesOf_data datasetOf_def comp_def)
  have sc: "scatterData (data t) (?dss ! 0) (?dss ! 1) =
        zip (map Some (columnData t (numericColumns t ! 0))) (map Some (columnData t (numericColumns t ! 1)))"
    if two: "2 \<le> length (numericColumns t)"
  proof -
    from two have "0 < length (numericColumns t)" "1 < length (numericColumns t)" by linarith+
    then have "?dss ! 0 = datasetOf t (numericColumns t ! 0)" "?dss ! 1 = datasetOf t (numericColumns t ! 1)"
      by simp_all
    then show ?thesis
      by (simp add: scatterData_zip datasetOf_def length_columnData)
  qed
  have sel: "selectCharts t = Inr (Some (take 4 ?charts))"
    using rows ne by (simp add: selectCharts_def numericDatasets_wellFormed_Suc [OF wf] hasRangeLabels_def Let_def)
  have kinds: "map kind (take 4 ?charts) =
      (if hasRangeLabels t then (if 2 \<le> length (numericColumns t) then [Bar, Scatter] else [Bar])
       else [Bar, Line, Pie, Doughnut])"
    using ne by (simp add: buildCharts_def)
  have counts: "list_all (\<lambda>c. list_all (\<lambda>s. pointCount s = length (data t)) (chart_datasets c)) (take 4 ?charts)"
    using ne pc sc by (simp add: buildCharts_def pointCount_def datasetOf_def length_columnData)
  have bar: "map s_data (chart_datasets (take 4 ?charts ! 0)) = map (\<lambda>i. Values (columnData t i)) (numericColumns t)"
    using ne sd by (simp add: buildCharts_def)
  have scatter: "hasRangeLabels t \<and> 2 \<le> length (numericColumns t) \<longrightarrow>
      map s_data (chart_datasets (take 4 ?charts ! 1)) =
        [Points (zip (map Some (columnData t (numericColumns t ! 0)))
                     (map Some (columnData t (numericColumns t ! 1))))]"
    using sc by (simp add: buildCharts_def)
  from sel kinds counts bar scatter
  show "\<exists>charts. selectCharts t = Inr (Some charts)
           \<and> map kind charts =
               (if hasRangeLabels t then (if 2 \<le> length (numericColumns t) then [Bar, Scatter] else [Bar])
                else [Bar, Line, Pie, Doughnut])
           \<and> list_all (\<lambda>c. list_all (\<lambda>s. pointCount s = length (data t)) (chart_datasets c)) charts
           \<and> map s_data (chart_datasets (charts ! 0)) = map (\<lambda>i. Values (columnData t i)) (numericColumns t)
           \<and> (hasRangeLabels t \<and> 2 \<le> length (numericColumns t) \<longrightarrow>
                map s_data (chart_datasets (charts ! 1)) =
                  [Points (zip (map Some (columnData t (numericColumns t ! 0)))
                               (map Some (columnData t (numericColumns t ! 1))))])"
    by (intro exI [of _ "take 4 ?charts"] conjI)
qed

text \<open>The table of the specification's example: Pune and Mumbai with their prices.\<close>

theorem selectCharts_by_label_shape_witness:
  "wellFormed \<lparr>headers = [''City'', ''Price''], data = [[''Pune'', ''5000''], [''Mumbai'', ''9000'']]\<rparr>
   \<and> numericColumns \<lparr>headers = [''City'', ''Price''], data = [[''Pune'', ''5000''], [''Mumbai'', ''9000'']]\<rparr> = [1]
   \<and> \<not> hasRangeLabels \<lparr>headers = [''City'', ''Price''], data = [[''Pune'', ''5000''], [''Mumbai'', ''9000'']]\<rparr>
   \<and> (\<exists>charts. selectCharts \<lparr>headers = [''City'', ''Price''], data = [[''Pune'', ''5000''], [''Mumbai'', ''9000'']]\<rparr>
          = Inr (Some charts)
        \<and> map kind charts = [Bar, Line, Pie, Doughnut]
        \<and> list_all (\<lambda>c. list_all (\<lambda>s. pointCount s = 2) (chart_datasets c)) charts)"
proof -
  let ?t = "\<lparr>headers = [''City'', ''Price''], data = [[''Pune'', ''5000''], [''Mumbai'', ''9000'']]\<rparr>"
  have wf: "wellFormed ?t" by code_simp
  have rows: "data ?t \<noteq> []" by simp
  have nc: "numericColumns ?t = [1]" by code_simp
  have nr: "\<not> hasRangeLabels ?t" by code_simp
  from nc have ne: "numericColumns ?t \<noteq> []" by simp
  from selectCharts_by_label_shape [OF wf rows, THEN conjunct2, rule_format, OF ne]
  obtain charts where c: "selectCharts ?t = Inr (Some charts)"
    "map kind charts =
      (if hasRangeLabels ?t then (if 2 \<le> length (numericColumns ?t) then [Bar, Scatter] else [Bar])
       else [Bar, Line, Pie, Doughnut])"
    "list_all (\<lambda>c. list_all (\<lambda>s. pointCount s = length (data ?t)) (chart_datasets c)) charts"
    by blast
  from c(2) nr have k: "map kind charts = [Bar, Line, Pie, Doughnut]" by simp
  from c(3) have p: "list_all (\<lambda>c. list_all (\<lambda>s. pointCount s = 2) (chart_datasets c)) charts"
    by (simp add: numeral_2_eq_2)
  from c(1) k p have "\<exists>charts. selectCharts ?t = Inr (Some charts)
        \<and> map kind charts = [Bar, Line, Pie, Doughnut]
        \<and> list_all (\<lambda>c. list_all (\<lambda>s. pointCount s = 2) (chart_datasets c)) charts"
    by (intro exI [of _ charts] conjI)
  with wf nc nr show ?thesis by (intro conjI)
qed


text \<open>
  Claim C10. A cell counts as numeric as soon as it begins with a number. When, in
  column \<open>i\<close> of a table, the text of every cell without its commas is a numeric literal
  followed by nothing or by text that starts with a character which cannot continue a
  number (no digit, no point, no exponent indicator), then every cell parses to the number
  of its literal, the same as the literal alone parses to, the column is classified
  numeric, and its dataset holds exactly the numbers of the literals.
\<close>

theorem numeric_prefix_cells:
  assumes wf: "wellFormed t" and i: "0 < i" "i < length (headers t)"
    and cells: "\<forall>row \<in> set (data t). removeCommas (row ! i) = lit row @ rest row
        \<and> isStrDecimalLiteral (lit row) \<and> (rest row = [] \<or> \<not> isNumericChar (hd (rest row)))"
  shows "list_all (\<lambda>row. parseFloat (removeCommas (row ! i)) = NumberOf (lit row)
            \<and> parseFloat (lit row) = NumberOf (lit row)) (data t)
    \<and> isNumericColumn t i
    \<and> i \<in> set (numericColumns t)
    \<and> (\<exists>dss. numericDatasets t [1 ..< length (headers t)] = Inr dss
          \<and> list_ex (\<lambda>ds. columnIndex ds = i \<and> ds_data ds = map (\<lambda>row. NumberOf (lit row)) (data t)) dss)"
proof -
  have cell: "parseFloat (removeCommas (row ! i)) = NumberOf (lit row) \<and> parseFloat (lit row) = NumberOf (lit row)"
    if "row \<in> set (data t)" for row
  proof -
    from cells that have c: "removeCommas (row ! i) = lit row @ rest row" "isStrDecimalLiteral (lit row)"
      "rest row = [] \<or> \<not> isNumericChar (hd (rest row))"
      by blast+
    from parseFloat_prefix [OF c(2,3)] c(1) parseFloat_prefix [OF c(2), of "[]"]
    show ?thesis by simp
  qed
  then have all: "list_all (\<lambda>row. parseFloat (removeCommas (row ! i)) = NumberOf (lit row)
            \<and> parseFloat (lit row) = NumberOf (lit row)) (data t)"
    by (simp add: list_all_iff)
  from cell have num: "isNumericColumn t i"
    by (simp add: isNumericColumn_def list_all_iff isNaN_def)
  with i have mem: "i \<in> set (numericColumns t)"
    by (simp add: numericColumns_def)
  from cell have cd: "columnData t i = map (\<lambda>row. NumberOf (lit row)) (data t)"
    by (simp add: columnData_def)
  from mem cd have "list_ex (\<lambda>ds. columnIndex ds = i \<and> ds_data ds = map (\<lambda>row. NumberOf (lit row)) (data t))
      (map (datasetOf t) (numericColumns t))"
    by (auto simp: list_ex_iff datasetOf_def)
  with numericDatasets_wellFormed [OF wf]
  have "\<exists>dss. numericDatasets t [1 ..< length (headers t)] = Inr dss
          \<and> list_ex (\<lambda>ds. columnIndex ds = i \<and> ds_data ds = map (\<lambda>row. NumberOf (lit row)) (data t)) dss"
    by blast
  with all num mem show ?thesis by blast
qed


text \<open>The cells \<^verbatim>\<open>12 units\<close> and \<^verbatim>\<open>1,500 pieces\<close>: the column is numeric, with the numbers
  12 and 1500.\<close>

theorem numeric_prefix_cells_witness:
  "isNumericColumn \<lparr>headers = [''Item'', ''Quantity''], data = [[''bolts'', ''12 units''], [''nuts'', ''1,500 pieces'']]\<rparr> 1
   \<and> list_all (\<lambda>row. parseFloat (removeCommas (row ! 1)) = NumberOf (takeWhile isDigit (removeCommas (row ! 1))))
        [[''bolts'', ''12 units''], [''nuts'', ''1,500 pieces'']]"
proof -
  let ?t = "\<lparr>headers = [''Item'', ''Quantity''], data = [[''bolts'', ''12 units''], [''nuts'', ''1,500 pieces'']]\<rparr>"
  let ?lit = "\<lambda>row. takeWhile isDigit (removeCommas (row ! 1))"
  let ?rest = "\<lambda>row. dropWhile isDigit (removeCommas (row ! 1))"
  have wf: "wellFormed ?t" by code_simp
  have i: "0 < (1::nat)" "1 < length (headers ?t)" by simp_all
  have d: "isDecimalDigits ''12''" "isDecimalDigits ''1500''" by code_simp+
  have l: "takeWhile isDigit (removeCommas ''12 units'') = ''12''"
    "takeWhile isDigit (removeCommas ''1,500 pieces'') = ''1500''"
    "dropWhile isDigit (removeCommas ''12 units'') = '' units''"
    "dropWhile isDigit (removeCommas ''1,500 pieces'') = '' pieces''"
    "removeCommas ''12 units'' = ''12 units''"
    "removeCommas ''1,500 pieces'' = ''1500 pieces''"
    by code_simp+
  have n: "\<not> isNumericChar (CHR '' '')" by code_simp
  have cells: "\<forall>row \<in> set (data ?t). removeCommas (row ! 1) = ?lit row @ ?rest row
        \<and> isStrDecimalLiteral (?lit row) \<and> (?rest row = [] \<or> \<not> isNumericChar (hd (?rest row)))"
    using d [THEN digits_literal] n by (simp add: l(1-4))
  note inst = numeric_prefix_cells [of ?t 1 ?lit ?rest, OF wf i cells]
  from inst [THEN conjunct1]
  have a: "list_all (\<lambda>row. parseFloat (removeCommas (row ! 1)) = NumberOf (?lit row)) (data ?t)"
    by (simp add: list_all_iff del: takeWhile.simps)
  from inst [THEN conjunct2, THEN conjunct1]
  have b: "isNumericColumn ?t 1" .
  from a have "list_all (\<lambda>row. parseFloat (removeCommas (row ! 1)) = NumberOf (?lit row))
        [[''bolts'', ''12 units''], [''nuts'', ''1,500 pieces'']]"
    by (simp only: parsed_table.simps)
  with b show ?thesis by (rule conjI)
qed

section \<open>Properties of the comparison splitter\<close>








































text \<open>
  Claim C4, as the code has it. For the items Alpha and Beta and the text
  \<^verbatim>\<open>### Alpha\nfoo\n### Beta\nbar\n\<close> the splitter returns the sections
  \<^verbatim>\<open>{Alpha: "foo\n", Beta: "bar\n\n"}\<close>, the found items Alpha and Beta, and an empty
  preamble: the empty line behind the last line feed is appended to Beta as well. Without
  that last line feed the section of Beta is \<^verbatim>\<open>"bar\n"\<close>.
\<close>

theorem parseComparisonContent_alpha_beta:
  "parseComparisonContent (''### Alpha'' @ [NL] @ ''foo'' @ [NL] @ ''### Beta'' @ [NL] @ ''bar'' @ [NL]) [''Alpha'', ''Beta'']
     = Some \<lparr>c_generalContent = [],
              c_sections = [(''Alpha'', ''foo'' @ [NL]), (''Beta'', ''bar'' @ [NL, NL])],
              foundItems = [''Alpha'', ''Beta'']\<rparr>
   \<and> parseComparisonContent (''### Alpha'' @ [NL] @ ''foo'' @ [NL] @ ''### Beta'' @ [NL] @ ''bar'') [''Alpha'', ''Beta'']
     = Some \<lparr>c_generalContent = [],
              c_sections = [(''Alpha'', ''foo'' @ [NL]), (''Beta'', ''bar'' @ [NL])],
              foundItems = [''Alpha'', ''Beta'']\<rparr>"
  by code_simp


text \<open>Claim C4 as stated fails: the result is not the one with \<^verbatim>\<open>Beta: "bar\n"\<close>.\<close>

theorem parseComparisonContent_alpha_beta_counterexample:
  "parseComparisonContent (''### Alpha'' @ [NL] @ ''foo'' @ [NL] @ ''### Beta'' @ [NL] @ ''bar'' @ [NL]) [''Alpha'', ''Beta'']
     \<noteq> Some \<lparr>c_generalContent = [],
              c_sections = [(''Alpha'', ''foo'' @ [NL]), (''Beta'', ''bar'' @ [NL])],
              foundItems = [''Alpha'', ''Beta'']\<rparr>"
  by code_simp


section \<open>Properties of the text normalisation\<close>

text \<open>The second replacement puts a line feed behind the marked lines, one by one.\<close>

lemma lazyHeading_no_NL: "NL \<notin> set l \<Longrightarrow> lazyHeading cap l = None"
  by (induction l arbitrary: cap) (auto simp: isLineTerminator_def)

lemma lazyHeading_line:
  "NL \<notin> set l \<Longrightarrow>
     lazyHeading cap (l @ NL # t) = (if CR \<notin> set l \<and> \<not> prefix [NL] t then Some (cap @ l) else None)"
  by (induction l arbitrary: cap) (auto simp: isLineTerminator_def)

lemma replaceHeadings_no_NL: "NL \<notin> set l \<Longrightarrow> replaceHeadings l = l"
proof (induction l)
  case Nil
  show ?case by simp
next
  case (Cons c cs)
  then have "NL \<notin> set (drop 4 (c # cs))"
    by (meson in_set_dropD)
  then have "lazyHeading [] (drop 4 (c # cs)) = None"
    by (rule lazyHeading_no_NL)
  with Cons show ?case by simp
qed

lemma prefix_marker_line:
  assumes "NL \<notin> set l"
  shows "prefix ''### '' (l @ NL # t) \<longleftrightarrow> prefix ''### '' l"
proof
  assume "prefix ''### '' (l @ NL # t)"
  then consider "prefix ''### '' l" | us where "''### '' = l @ us" "prefix us (NL # t)"
    by (auto simp: prefix_append)
  then show "prefix ''### '' l"
  proof cases
    case 1
    then show ?thesis .
  next
    case 2
    show ?thesis
    proof (cases us)
      case Nil
      with 2(1) show ?thesis by simp
    next
      case (Cons u us')
      with 2(2) have "u = NL" by simp
      with Cons 2(1) have "''### '' = l @ NL # us'" by simp
      then have "NL \<in> set ''### ''" by (metis in_set_conv_decomp)
      then show ?thesis by simp
    qed
  qed
next
  assume "prefix ''### '' l"
  then show "prefix ''### '' (l @ NL # t)" by (rule prefix_prefix)
qed

lemma prefix_marker_line_Cons:
  assumes "NL \<notin> set (c # l)"
  shows "prefix ''### '' (c # (l @ NL # t)) \<longleftrightarrow> prefix ''### '' (c # l)"
  using prefix_marker_line [OF assms, of t] by (simp only: append_Cons)

lemma replaceHeadings_skip:
  "\<not> prefix ''### '' (c # cs) \<Longrightarrow> replaceHeadings (c # cs) = c # replaceHeadings cs"
  by (simp only: replaceHeadings.simps if_False)

lemma replaceHeadings_none:
  "prefix ''### '' (c # cs) \<Longrightarrow> lazyHeading [] (drop 4 (c # cs)) = None \<Longrightarrow>
     replaceHeadings (c # cs) = c # replaceHeadings cs"
  by (simp only: replaceHeadings.simps if_True option.case)

lemma replaceHeadings_match:
  "prefix ''### '' (c # cs) \<Longrightarrow> lazyHeading [] (drop 4 (c # cs)) = Some cap \<Longrightarrow>
     replaceHeadings (c # cs) = ''### '' @ cap @ [NL, NL] @ replaceHeadings (drop (length cap + 5) (c # cs))"
  by (simp only: replaceHeadings.simps if_True option.case)

lemma replaceHeadings_line:
  "NL \<notin> set l \<Longrightarrow>
     replaceHeadings (l @ NL # t) =
       l @ (if markedLine l \<and> \<not> prefix [NL] t then [NL, NL] else [NL]) @ replaceHeadings t"
proof (induction l)
  case Nil
  show ?case by simp
next
  case (Cons c l)
  then have nl: "NL \<notin> set l" "NL \<notin> set (c # l)" by simp_all
  note IH = Cons.IH [OF nl(1)]
  have app: "(c # l) @ NL # t = c # (l @ NL # t)" by simp
  show ?case
  proof (cases "prefix ''### '' (c # l)")
    case False
    then have np: "\<not> prefix ''### '' (c # (l @ NL # t))"
      using prefix_marker_line_Cons [OF nl(2), of t] by blast
    from False have "markedLine (c # l) = markedLine l"
      by (simp only: markedLine.simps) simp
    with replaceHeadings_skip [OF np] IH show ?thesis
      by (simp only: app) simp
  next
    case True
    then obtain l2 where l2: "c # l = ''### '' @ l2"
      by (auto simp: prefix_def)
    with nl(2) have nl2: "NL \<notin> set l2" by (metis Un_iff set_append)
    have cr: "CR \<notin> set (c # l) \<longleftrightarrow> CR \<notin> set l2"
      by (simp only: l2) simp
    have p: "prefix ''### '' (c # (l @ NL # t))"
      using True prefix_marker_line_Cons [OF nl(2), of t] by blast
    have d4: "drop 4 (c # (l @ NL # t)) = l2 @ NL # t"
      by (simp only: app [symmetric] l2) simp
    from True cr have marked: "markedLine (c # l) = (CR \<notin> set l2 \<or> markedLine l)"
      by (simp only: markedLine.simps) simp
    show ?thesis
    proof (cases "CR \<notin> set l2 \<and> \<not> prefix [NL] t")
      case yes: True
      then have lh: "lazyHeading [] (drop 4 (c # (l @ NL # t))) = Some l2"
        by (simp only: d4 lazyHeading_line [OF nl2]) simp
      have "c # (l @ NL # t) = (''### '' @ l2 @ [NL]) @ t"
        by (simp only: app [symmetric] l2) simp
      moreover have "length (''### '' @ l2 @ [NL]) = length l2 + 5"
        by simp
      ultimately have d: "drop (length l2 + 5) (c # (l @ NL # t)) = t"
        by (metis append_eq_conv_conj)
      have "replaceHeadings (c # (l @ NL # t)) = (''### '' @ l2) @ [NL, NL] @ replaceHeadings t"
        by (simp only: replaceHeadings_match [OF p lh] d) simp
      with marked yes show ?thesis
        by (simp only: app l2 [symmetric]) simp
    next
      case no: False
      then have lh: "lazyHeading [] (drop 4 (c # (l @ NL # t))) = None"
        by (simp only: d4 lazyHeading_line [OF nl2]) simp
      from no marked have "(markedLine (c # l) \<and> \<not> prefix [NL] t) = (markedLine l \<and> \<not> prefix [NL] t)"
        by blast
      with replaceHeadings_none [OF p lh] IH show ?thesis
        by (simp only: app) simp
    qed
  qed
qed


lemma split_nonempty: "split d s \<noteq> []"
  by (induction s) (auto split: list.splits)

lemma split_no_sep: "d \<notin> set l \<Longrightarrow> split d l = [l]"
  by (induction l) auto

lemma split_line: "d \<notin> set l \<Longrightarrow> split d (l @ d # t) = l # split d t"
  by (induction l) auto

lemma prefix_NL_split:
  "split NL t = m # rest \<Longrightarrow> prefix [NL] t \<longleftrightarrow> (m = [] \<and> rest \<noteq> [])"
  by (cases t) (auto simp: split_nonempty split: if_splits list.splits)

lemma joinLines_Cons: "X \<noteq> [] \<Longrightarrow> joinLines (l # X) = l @ NL # joinLines X"
  by (cases X) simp_all

lemma spaceLines_nonempty: "X \<noteq> [] \<Longrightarrow> spaceLines X \<noteq> []"
  by (induction X rule: spaceLines.induct) simp_all

lemma replaceHeadings_lines: "replaceHeadings s = joinLines (spaceLines (split NL s))"
proof (induction s rule: length_induct)
  case (1 s)
  show ?case
  proof (cases "NL \<in> set s")
    case False
    then show ?thesis
      by (simp add: replaceHeadings_no_NL split_no_sep)
  next
    case True
    then obtain l t where s: "s = l @ NL # t" and l: "NL \<notin> set l"
      by (blast dest: split_list_first)
    from s have "length t < length s" by simp
    with 1 have IH: "replaceHeadings t = joinLines (spaceLines (split NL t))" by blast
    obtain m rest where mr: "split NL t = m # rest"
      using split_nonempty [of NL t] by (cases "split NL t") auto
    note pre = prefix_NL_split [OF mr]
    have ne: "spaceLines (m # rest) \<noteq> []"
      by (rule spaceLines_nonempty) simp
    have "joinLines (spaceLines (l # m # rest)) =
        l @ (if markedLine l \<and> \<not> prefix [NL] t then [NL, NL] else [NL]) @ joinLines (spaceLines (m # rest))"
      using pre ne by (simp add: joinLines_Cons)
    with IH mr show ?thesis
      by (simp only: s split_line [OF l] replaceHeadings_line [OF l])
  qed
qed

text \<open>The first replacement rewrites the lines that are a bracketed text, one by one.\<close>

lemma lazyBracket_segment:
  assumes "\<not> list_ex isLineTerminator seg" and "atLineEnd rest"
  shows "lazyBracket cap (seg @ rest) =
     (if seg \<noteq> [] \<and> last seg = CHR '']'' then Some (cap @ butlast seg) else None)"
  using assms
proof (induction seg arbitrary: cap)
  case Nil
  then show ?case
    by (cases rest) (auto simp: atLineEnd_def isLineTerminator_def)
next
  case (Cons c seg)
  then have c: "\<not> isLineTerminator c" and seg: "\<not> list_ex isLineTerminator seg" by simp_all
  note IH = Cons.IH [OF seg Cons.prems(2)]
  show ?case
  proof (cases "seg = []")
    case True
    with Cons.prems(2) c show ?thesis
      by (cases rest) (auto simp: atLineEnd_def isLineTerminator_def)
  next
    case False
    then obtain d seg' where d: "seg = d # seg'" by (cases seg) auto
    with seg have "\<not> isLineTerminator d" by simp
    with d have "\<not> atLineEnd (seg @ rest)" by (simp add: atLineEnd_def)
    with c False IH [of "cap @ [c]"] show ?thesis by simp
  qed
qed


lemma replaceBrackets_plain:
  "\<not> list_ex isLineTerminator seg \<Longrightarrow> replaceBrackets False (seg @ rest) = seg @ replaceBrackets False rest"
  by (induction seg) simp_all

lemma replaceBrackets_terminator:
  "isLineTerminator lt \<Longrightarrow> replaceBrackets bol (lt # t) = lt # replaceBrackets True t"
  by (auto simp: isLineTerminator_def)

lemma replaceBrackets_at_end:
  "atLineEnd rest \<Longrightarrow> replaceBrackets True rest = replaceBrackets False rest"
proof (cases rest)
  case Nil
  then show ?thesis by simp
next
  case (Cons lt t)
  assume "atLineEnd rest"
  with Cons have "isLineTerminator lt" by (simp add: atLineEnd_def)
  with Cons show ?thesis by (simp only: replaceBrackets_terminator)
qed

lemma replaceBrackets_segment:
  assumes seg: "\<not> list_ex isLineTerminator seg" and rest: "atLineEnd rest"
  shows "replaceBrackets True (seg @ rest) = bracketLine seg @ replaceBrackets False rest"
proof (cases seg)
  case Nil
  with rest show ?thesis
    by (simp add: bracketLine_def replaceBrackets_at_end)
next
  case (Cons c seg')
  with seg have c: "\<not> isLineTerminator c" and seg': "\<not> list_ex isLineTerminator seg'"
    by simp_all
  note plain = replaceBrackets_plain [OF seg', of rest]
  show ?thesis
  proof (cases "c = CHR ''[''")
    case False
    with Cons c plain show ?thesis
      by (simp add: bracketLine_def)
  next
    case True
    note lb = lazyBracket_segment [OF seg' rest, of "[]"]
    show ?thesis
    proof (cases "seg' \<noteq> [] \<and> last seg' = CHR '']''")
      case closed: True
      then have "length (butlast seg') + 2 = length (c # seg')" by simp
      then have "drop (length (butlast seg') + 2) (c # seg' @ rest) = rest"
        by (metis append_Cons append_eq_conv_conj)
      with closed lb True have "replaceBrackets True (c # seg' @ rest) =
          ''### '' @ butlast seg' @ replaceBrackets False rest"
        by (simp del: drop_Suc_Cons)
      moreover from closed True have "bracketLine (c # seg') = ''### '' @ butlast seg'"
        by (cases seg') (simp_all add: bracketLine_def)
      ultimately show ?thesis
        using Cons by simp
    next
      case unclosed: False
      with lb True c plain have "replaceBrackets True (c # seg' @ rest) = c # seg' @ replaceBrackets False rest"
        by simp
      moreover from unclosed have "bracketLine (c # seg') = c # seg'"
        by (cases seg') (auto simp: bracketLine_def)
      ultimately show ?thesis
        using Cons by simp
    qed
  qed
qed

lemma replaceBrackets_interleave:
  assumes "length segs = Suc (length lts)"
    and "\<forall>seg \<in> set segs. \<not> list_ex isLineTerminator seg"
    and "\<forall>lt \<in> set lts. isLineTerminator lt"
  shows "replaceBrackets True (interleave segs lts) = interleave (map bracketLine segs) lts"
  using assms
proof (induction lts arbitrary: segs)
  case Nil
  then obtain seg where "segs = [seg]" by (cases segs) auto
  with Nil replaceBrackets_segment [of seg "[]"] show ?case
    by (simp add: atLineEnd_def)
next
  case (Cons lt lts)
  then obtain seg segs' where segs: "segs = seg # segs'" by (cases segs) auto
  with Cons.prems have seg: "\<not> list_ex isLineTerminator seg" and lt: "isLineTerminator lt"
    and rest: "length segs' = Suc (length lts)" "\<forall>seg \<in> set segs'. \<not> list_ex isLineTerminator seg"
      "\<forall>lt \<in> set lts. isLineTerminator lt"
    by simp_all
  from lt have "atLineEnd (lt # interleave segs' lts)" by (simp add: atLineEnd_def)
  from replaceBrackets_segment [OF seg this] lt Cons.IH [OF rest] segs show ?case
    by (simp add: replaceBrackets_terminator)
qed

lemma segments_nonempty: "segments s \<noteq> []"
  by (induction s) (auto split: list.splits)

lemma segments_props:
  "interleave (segments s) (filter isLineTerminator s) = s
   \<and> length (segments s) = Suc (length (filter isLineTerminator s))
   \<and> (\<forall>seg \<in> set (segments s). \<not> list_ex isLineTerminator seg)"
proof (induction s)
  case Nil
  show ?case by simp
next
  case (Cons c s)
  obtain seg segs where sg: "segments s = seg # segs"
    using segments_nonempty [of s] by (cases "segments s") auto
  show ?case
  proof (cases "isLineTerminator c")
    case True
    with Cons show ?thesis by simp
  next
    case False
    have "interleave ((c # seg) # segs) lts = c # interleave (seg # segs) lts" for lts
      by (cases lts) simp_all
    with False Cons sg show ?thesis by simp
  qed
qed


text \<open>
  Claim C9, as the code has it. The normalisation rewrites every line (a run of
  characters between line terminators, line feed or carriage return) that is exactly
  \<^verbatim>\<open>[Something]\<close> to \<^verbatim>\<open>### Something\<close>. Then, behind every line that ends with a line
  feed and contains the marker \<^verbatim>\<open>### \<close> anywhere, not only at its start, with no carriage
  return behind the marker, it inserts one line feed, unless a second line feed follows
  already; so it inserts one also when the line feed of the marked line ends the text,
  and before a next line of white space only. It rewrites nothing else.
\<close>

theorem normalizeMarkdown_line_by_line:
  "normalizeMarkdown content =
     joinLines (spaceLines (split NL
       (interleave (map bracketLine (segments content)) (filter isLineTerminator content))))"
proof -
  from segments_props [of content]
  have "replaceBrackets True (interleave (segments content) (filter isLineTerminator content))
     = interleave (map bracketLine (segments content)) (filter isLineTerminator content)"
    by (intro replaceBrackets_interleave) simp_all
  with segments_props [of content]
  have "replaceBrackets True content
     = interleave (map bracketLine (segments content)) (filter isLineTerminator content)"
    by simp
  then show ?thesis
    by (simp add: normalizeMarkdown_def replaceHeadings_lines)
qed


text \<open>A bracketed line in front of a line of text: it becomes a heading with an empty line
  behind it.\<close>

theorem normalizeMarkdown_line_by_line_witness:
  "normalizeMarkdown (''[Pune]'' @ [NL] @ ''prices rise'') = ''### Pune'' @ [NL, NL] @ ''prices rise''"
proof -
  have "joinLines (spaceLines (split NL
       (interleave (map bracketLine (segments (''[Pune]'' @ [NL] @ ''prices rise'')))
          (filter isLineTerminator (''[Pune]'' @ [NL] @ ''prices rise'')))))
     = ''### Pune'' @ [NL, NL] @ ''prices rise''"
    by code_simp
  then show ?thesis
    by (simp only: normalizeMarkdown_line_by_line)
qed

text \<open>
  Claim C9 as stated fails. The line \<^verbatim>\<open>a ### b\<close> does not begin with the marker, and an
  empty line is put behind it; the heading \<^verbatim>\<open>### T\<close> with its line feed ends the text, no
  line follows, and a line feed is added.
\<close>

theorem normalizeMarkdown_other_rewrites_counterexample:
  "normalizeMarkdown (''a ### b'' @ [NL] @ ''c'') = ''a ### b'' @ [NL, NL] @ ''c''
   \<and> normalizeSpec (''a ### b'' @ [NL] @ ''c'') = ''a ### b'' @ [NL] @ ''c''
   \<and> normalizeMarkdown (''### T'' @ [NL]) = ''### T'' @ [NL, NL]
   \<and> normalizeSpec (''### T'' @ [NL]) = ''### T'' @ [NL]"
  by code_simp

end
